theory Spec2Isabelle
  imports
    Complex_Main
    "HOL-Library.Sublist"
    "HOL-Library.Char_ord"
    "HOL-Library.List_Lexorder"
    "HOL-Library.Product_Lexorder"
begin

section \<open>Values exchanged with the remote services\<close>

text \<open>
  The bot (\<^verbatim>\<open>TelebotUrEdu.py\<close>) works on decoded JSON throughout: the inbound webhook
  update, the answers of the Blogger API and the posts inside them are Python objects as
  \<^verbatim>\<open>json\<close> decoding produces them. A decoded value is \<^verbatim>\<open>None\<close>, a \<^verbatim>\<open>bool\<close>, a number, a
  \<^verbatim>\<open>str\<close>, a \<^verbatim>\<open>list\<close> or a \<^verbatim>\<open>dict\<close> with string keys. Numbers are modelled as integers
  (chat identifiers are); a dict is an association list in insertion order, looked up
  from the front.

  A Python \<^verbatim>\<open>str\<close> is a \<open>string\<close>; a character of the model is a code point below 256.
\<close>

datatype json =
    JNull
  | JBool bool
  | JNum int
  | JStr string
  | JArr "json list"
  | JObj "(string \<times> json) list"

text \<open>
  Exceptions are values. \<open>RequestException\<close> stands for the class
  \<^verbatim>\<open>requests.exceptions.RequestException\<close> with its subclasses, which is what the two
  \<^verbatim>\<open>except\<close> clauses of \<^verbatim>\<open>send_to_telegram\<close> and \<^verbatim>\<open>search_blogger_posts\<close> catch; the others
  are built-in exceptions, caught only by the \<^verbatim>\<open>except Exception\<close> of the handler.
\<close>

datatype request_exception =
    Timeout
  | ConnectionError
  | HTTPError nat
  | Other_request_exception string

datatype exn =
    RequestException request_exception
  | ValueError json
  | KeyError string
  | TypeError
  | AttributeError

definition bind_exn :: "exn + 'a \<Rightarrow> ('a \<Rightarrow> exn + 'b) \<Rightarrow> exn + 'b" where
  "bind_exn r f = (case r of Inl e \<Rightarrow> Inl e | Inr x \<Rightarrow> f x)"

text \<open>A list comprehension whose element expression may raise stops at the first raise.\<close>

fun map_exn :: "('a \<Rightarrow> exn + 'b) \<Rightarrow> 'a list \<Rightarrow> exn + 'b list" where
  "map_exn f [] = Inr []"
| "map_exn f (x # xs) =
     bind_exn (f x) (\<lambda>y. bind_exn (map_exn f xs) (\<lambda>ys. Inr (y # ys)))"

subsection \<open>Python operations on decoded values\<close>

text \<open>Truth value of an object, as \<^verbatim>\<open>not message\<close>, \<^verbatim>\<open>not posts\<close> and \<^verbatim>\<open>if posts\<close> test it.\<close>

fun truthy :: "json \<Rightarrow> bool" where
  "truthy JNull = False"
| "truthy (JBool b) = b"
| "truthy (JNum i) = (i \<noteq> 0)"
| "truthy (JStr s) = (s \<noteq> [])"
| "truthy (JArr xs) = (xs \<noteq> [])"
| "truthy (JObj kvs) = (kvs \<noteq> [])"

text \<open>\<^verbatim>\<open>sub in s\<close> on two strings: \<open>sub\<close> occurs in \<open>s\<close> as a contiguous run.\<close>

fun is_substring :: "string \<Rightarrow> string \<Rightarrow> bool" where
  "is_substring sub [] = (sub = [])"
| "is_substring sub (c # cs) = (prefix sub (c # cs) \<or> is_substring sub cs)"

text \<open>
  \<^verbatim>\<open>key in obj\<close> for a string key: key membership on a dict, element membership on a
  list, substring test on a str, \<^verbatim>\<open>TypeError\<close> on anything else.
\<close>

fun py_contains :: "string \<Rightarrow> json \<Rightarrow> exn + bool" where
  "py_contains k (JObj kvs) = Inr (k \<in> set (map fst kvs))"
| "py_contains k (JArr xs) = Inr (JStr k \<in> set xs)"
| "py_contains k (JStr s) = Inr (is_substring k s)"
| "py_contains k _ = Inl TypeError"

text \<open>\<^verbatim>\<open>obj.get(key, default)\<close>: only a dict has the method.\<close>

fun py_get :: "json \<Rightarrow> string \<Rightarrow> json \<Rightarrow> exn + json" where
  "py_get (JObj kvs) k d = Inr (case map_of kvs k of None \<Rightarrow> d | Some v \<Rightarrow> v)"
| "py_get _ k d = Inl AttributeError"

text \<open>
  \<^verbatim>\<open>obj[key]\<close> for a string key: \<^verbatim>\<open>KeyError\<close> on a dict without the key, \<^verbatim>\<open>TypeError\<close> on
  every other object (a list or str wants an integer index, the rest is not
  subscriptable).
\<close>

fun py_index :: "json \<Rightarrow> string \<Rightarrow> exn + json" where
  "py_index (JObj kvs) k = (case map_of kvs k of None \<Rightarrow> Inl (KeyError k) | Some v \<Rightarrow> Inr v)"
| "py_index _ k = Inl TypeError"

text \<open>
  The elements a \<^verbatim>\<open>for\<close> loop or comprehension visits: those of a list, the one-character
  strings of a str, the keys of a dict; \<^verbatim>\<open>TypeError\<close> otherwise.
\<close>

fun py_iter :: "json \<Rightarrow> exn + json list" where
  "py_iter (JArr xs) = Inr xs"
| "py_iter (JStr s) = Inr (map (\<lambda>c. JStr [c]) s)"
| "py_iter (JObj kvs) = Inr (map (\<lambda>kv. JStr (fst kv)) kvs)"
| "py_iter _ = Inl TypeError"

fun py_len :: "json \<Rightarrow> exn + nat" where
  "py_len (JArr xs) = Inr (length xs)"
| "py_len (JStr s) = Inr (length s)"
| "py_len (JObj kvs) = Inr (length kvs)"
| "py_len _ = Inl TypeError"

text \<open>
  The slice \<^verbatim>\<open>obj[:n]\<close>. A dict raises (\<^verbatim>\<open>TypeError\<close> up to Python 3.11, \<^verbatim>\<open>KeyError\<close> from
  3.12 on; the model has the former), as do the objects that are not subscriptable.
\<close>

fun py_slice_to :: "nat \<Rightarrow> json \<Rightarrow> exn + json" where
  "py_slice_to n (JArr xs) = Inr (JArr (take n xs))"
| "py_slice_to n (JStr s) = Inr (JStr (take n s))"
| "py_slice_to n _ = Inl TypeError"

subsection \<open>Strings\<close>

text \<open>
  \<^verbatim>\<open>str.lower\<close> and \<^verbatim>\<open>str.strip\<close> on code points below 256: the upper-case letters are
  \<^verbatim>\<open>A\<close> to \<^verbatim>\<open>Z\<close> and 192 to 222 without 215, each 32 below its lower-case letter; the
  white space is 9 to 13, 28 to 32, 133 and 160.
\<close>

definition lower_char :: "char \<Rightarrow> char" where
  "lower_char c =
     (let n = (of_char c :: nat)
      in if (65 \<le> n \<and> n \<le> 90) \<or> (192 \<le> n \<and> n \<le> 222 \<and> n \<noteq> 215)
         then char_of (n + 32) else c)"

definition lower :: "string \<Rightarrow> string" where
  "lower s = map lower_char s"

definition isspace :: "char \<Rightarrow> bool" where
  "isspace c =
     (let n = (of_char c :: nat)
      in (9 \<le> n \<and> n \<le> 13) \<or> (28 \<le> n \<and> n \<le> 32) \<or> n = 133 \<or> n = 160)"

definition strip :: "string \<Rightarrow> string" where
  "strip s = rev (dropWhile isspace (rev (dropWhile isspace s)))"

text \<open>\<^verbatim>\<open>sep.join(parts)\<close>.\<close>

fun join :: "string \<Rightarrow> string list \<Rightarrow> string" where
  "join sep [] = []"
| "join sep [x] = x"
| "join sep (x # y # ys) = x @ sep @ join sep (y # ys)"

text \<open>An f-string prints \<^verbatim>\<open>None\<close> for a configuration variable that is not set.\<close>

definition fmt_env :: "string option \<Rightarrow> string" where
  "fmt_env v = (case v of None \<Rightarrow> ''None'' | Some s \<Rightarrow> s)"

section \<open>The outside world\<close>

text \<open>
  Text sent to the chat and printed to the console is kept as the template of the
  source with the interpolated values in place; \<^verbatim>\<open>str()\<close> of an object is not rendered.
  \<^item> \<open>Prompt_keyword\<close>: \<^verbatim>\<open>"(U+2139) Please send a search keyword"\<close>
  \<^item> \<open>Found_related n\<close>: \<^verbatim>\<open>f"(U+1F3AF) Found {len(posts)} related matches:"\<close>
  \<^item> \<open>Found_exact n\<close>: \<^verbatim>\<open>f"(U+1F50D) Found {len(posts)} exact matches:"\<close>
  \<^item> \<open>No_matches\<close>: \<^verbatim>\<open>"(U+274C) No matches found. Try different keywords."\<close>
  \<^item> \<open>Post_line title url\<close>: \<^verbatim>\<open>f"(U+1F4D6) *{post['title']}*\n{post['url']}"\<close>
  \<^item> \<open>Error_text e\<close>: \<^verbatim>\<open>f"(U+26A0) Error: {str(e)}"\<close>
\<close>

datatype notice =
    Prompt_keyword
  | Found_related nat
  | Found_exact nat
  | No_matches
  | Post_line json json
  | Error_text exn

datatype log_line =
    Telegram_api_error request_exception
  | Blogger_request_failed request_exception
  | Handler_error exn

text \<open>The JSON body of a \<^verbatim>\<open>sendMessage\<close> call (\<open>message_text\<close> is its \<^verbatim>\<open>"text"\<close>).\<close>

record telegram_payload =
  chat_id :: json
  message_text :: notice
  parse_mode :: string
  disable_web_page_preview :: bool

text \<open>
  What one invocation has done so far: the \<^verbatim>\<open>sendMessage\<close> calls made, the Blogger URLs
  fetched and the lines printed, each in order.
\<close>

record world =
  sent :: "telegram_payload list"
  fetched :: "string list"
  console :: "log_line list"

definition world0 :: world where
  "world0 = \<lparr>sent = [], fetched = [], console = []\<rparr>"

text \<open>
  \<^verbatim>\<open>requests.post\<close> either raises a \<^verbatim>\<open>RequestException\<close> or returns a response with a
  status code.
\<close>

datatype post_outcome = Post_raises request_exception | Post_response nat

text \<open>
  The environment of an invocation: the three configuration variables read with
  \<^verbatim>\<open>os.getenv\<close>, and the behaviour of what the code calls but does not contain.
  \<^item> \<open>http_get url\<close> is the outcome of \<^verbatim>\<open>requests.get(url, timeout=10).json()\<close>: the
    decoded body, or the exception raised.
  \<^item> \<open>http_post n url body\<close> is the outcome of the \<^verbatim>\<open>requests.post\<close> that follows \<open>n\<close>
    earlier ones in the invocation.
  \<^item> \<open>ratio a b\<close> is \<^verbatim>\<open>difflib.SequenceMatcher(None, a, b).ratio()\<close>.
\<close>

record env =
  BLOG_ID :: "string option"
  API_KEY :: "string option"
  TELEGRAM_TOKEN :: "string option"
  http_get :: "string \<Rightarrow> exn + json"
  http_post :: "nat \<Rightarrow> string \<Rightarrow> telegram_payload \<Rightarrow> post_outcome"
  ratio :: "string \<Rightarrow> string \<Rightarrow> rat"

text \<open>A computation that may raise, in a world it may change.\<close>

type_synonym 'a action = "world \<Rightarrow> (exn + 'a) \<times> world"

definition bind_io :: "'a action \<Rightarrow> ('a \<Rightarrow> 'b action) \<Rightarrow> 'b action" where
  "bind_io m f w = (case m w of (Inl e, w1) \<Rightarrow> (Inl e, w1) | (Inr x, w1) \<Rightarrow> f x w1)"

definition return_io :: "'a \<Rightarrow> 'a action" where
  "return_io x w = (Inr x, w)"

definition lift_exn :: "exn + 'a \<Rightarrow> 'a action" where
  "lift_exn r w = (r, w)"

definition print_line :: "log_line \<Rightarrow> unit action" where
  "print_line l w = (Inr (), w\<lparr>console := console w @ [l]\<rparr>)"

section \<open>Notifier: \<^verbatim>\<open>send_to_telegram\<close>\<close>

definition send_message_url :: "env \<Rightarrow> string" where
  "send_message_url E = ''https://api.telegram.org/bot'' @ fmt_env (TELEGRAM_TOKEN E) @ ''/sendMessage''"

definition message_to :: "json \<Rightarrow> notice \<Rightarrow> telegram_payload" where
  "message_to c t =
     \<lparr>chat_id = c, message_text = t, parse_mode = ''Markdown'', disable_web_page_preview = True\<rparr>"

text \<open>\<^verbatim>\<open>response.raise_for_status()\<close>: an \<^verbatim>\<open>HTTPError\<close> for a 4xx or 5xx status.\<close>

definition raise_for_status :: "nat \<Rightarrow> exn + unit" where
  "raise_for_status code =
     (if 400 \<le> code \<and> code < 600 then Inl (RequestException (HTTPError code)) else Inr ())"

definition requests_post :: "env \<Rightarrow> string \<Rightarrow> telegram_payload \<Rightarrow> nat action" where
  "requests_post E url body w =
     (case http_post E (length (sent w)) url body of
        Post_raises e \<Rightarrow> Inl (RequestException e)
      | Post_response code \<Rightarrow> Inr code,
      w\<lparr>sent := sent w @ [body]\<rparr>)"

text \<open>The body of the \<^verbatim>\<open>try\<close>, then the \<^verbatim>\<open>except RequestException\<close> clause around it.\<close>

definition send_to_telegram_try :: "env \<Rightarrow> json \<Rightarrow> notice \<Rightarrow> bool action" where
  "send_to_telegram_try E c t =
     bind_io (requests_post E (send_message_url E) (message_to c t)) (\<lambda>code.
     bind_io (lift_exn (raise_for_status code)) (\<lambda>_.
     return_io True))"

definition send_to_telegram :: "env \<Rightarrow> json \<Rightarrow> notice \<Rightarrow> bool action" where
  "send_to_telegram E c t w =
     (case send_to_telegram_try E c t w of
        (Inl (RequestException e), w1) \<Rightarrow>
          bind_io (print_line (Telegram_api_error e)) (\<lambda>_. return_io False) w1
      | r \<Rightarrow> r)"

section \<open>Content search: \<^verbatim>\<open>search_blogger_posts\<close>\<close>

text \<open>
  \<^verbatim>\<open>difflib.get_close_matches(word, possibilities, n, cutoff)\<close> of the standard library:
  the possibilities whose similarity ratio to \<open>word\<close> is at least \<open>cutoff\<close>, the \<open>n\<close>
  best of them, best first, ordered as the pairs of ratio and string are. (The library
  tests two cheaper upper bounds of the ratio before the ratio itself; they do not change
  the outcome.) The ratio is twice the number of matched characters over the sum of the
  two lengths. The library computes it in floating point; the model has the exact
  fraction, which compares with the cutoff 0.6 as the float does for strings of any
  length a label or a message can have.
\<close>

definition get_close_matches ::
  "(string \<Rightarrow> string \<Rightarrow> rat) \<Rightarrow> string \<Rightarrow> string list \<Rightarrow> nat \<Rightarrow> rat \<Rightarrow> string list" where
  "get_close_matches score word possibilities n cutoff =
     map snd (take n (rev (sort
       (map (\<lambda>x. (score x word, x)) (filter (\<lambda>x. score x word \<ge> cutoff) possibilities)))))"

definition exact_posts_url :: "env \<Rightarrow> string \<Rightarrow> string" where
  "exact_posts_url E keyword =
     ''https://www.googleapis.com/blogger/v3/blogs/'' @ fmt_env (BLOG_ID E)
       @ ''/posts?labels='' @ keyword @ ''&key='' @ fmt_env (API_KEY E)"

definition all_posts_url :: "env \<Rightarrow> string" where
  "all_posts_url E =
     ''https://www.googleapis.com/blogger/v3/blogs/'' @ fmt_env (BLOG_ID E)
       @ ''/posts?key='' @ fmt_env (API_KEY E)"

definition requests_get_json :: "env \<Rightarrow> string \<Rightarrow> json action" where
  "requests_get_json E url w = (http_get E url, w\<lparr>fetched := fetched w @ [url]\<rparr>)"

text \<open>\<^verbatim>\<open>label.lower().strip()\<close>: only a str has the methods.\<close>

fun lower_strip :: "json \<Rightarrow> exn + string" where
  "lower_strip (JStr s) = Inr (strip (lower s))"
| "lower_strip _ = Inl AttributeError"

text \<open>\<^verbatim>\<open>[label.lower().strip() for label in post.get("labels", [])]\<close>\<close>

definition post_labels :: "json \<Rightarrow> exn + string list" where
  "post_labels post =
     bind_exn (py_get post ''labels'' (JArr [])) (\<lambda>labels.
     bind_exn (py_iter labels) (\<lambda>ls. map_exn lower_strip ls))"

text \<open>
  The condition of line 50 on the labels of one post. As the file has it, the line opens
  three parentheses and closes two,
  \<^verbatim>\<open>if (keyword in " ".join(post_labels) or get_close_matches(keyword, post_labels, n=1, cutoff=0.6):\<close>
  so Python refuses the module with a \<^verbatim>\<open>SyntaxError\<close> and the line as written computes
  nothing. \<open>label_match\<close> is the condition of the line completed by the one missing
  \<^verbatim>\<open>)\<close>, before the colon or after the \<^verbatim>\<open>join\<close> call: either way the substring test or the
  close match. It is a reading of the line, not the line; only the statements about the
  match set rest on it.
\<close>

definition label_match :: "env \<Rightarrow> string \<Rightarrow> string list \<Rightarrow> bool" where
  "label_match E keyword labels =
     (is_substring keyword (join '' '' labels)
      \<or> get_close_matches (ratio E) keyword labels 1 (6 / 10) \<noteq> [])"

text \<open>The loop of lines 47 to 51; the accumulator is \<^verbatim>\<open>matched_posts\<close>.\<close>

fun match_loop :: "env \<Rightarrow> string \<Rightarrow> json list \<Rightarrow> json list \<Rightarrow> exn + json list" where
  "match_loop E keyword matched_posts [] = Inr matched_posts"
| "match_loop E keyword matched_posts (post # rest) =
     bind_exn (post_labels post) (\<lambda>labels.
       match_loop E keyword
         (if label_match E keyword labels then matched_posts @ [post] else matched_posts) rest)"

text \<open>
  Keys of a Python dict: \<^verbatim>\<open>None\<close>, numbers and strings are hashable, with \<^verbatim>\<open>True == 1\<close>
  and \<^verbatim>\<open>False == 0\<close>; a list or a dict as key raises \<^verbatim>\<open>TypeError\<close>.
\<close>

datatype dict_key = KNone | KNum int | KStr string

fun hash_key :: "json \<Rightarrow> exn + dict_key" where
  "hash_key JNull = Inr KNone"
| "hash_key (JBool b) = Inr (KNum (if b then 1 else 0))"
| "hash_key (JNum i) = Inr (KNum i)"
| "hash_key (JStr s) = Inr (KStr s)"
| "hash_key _ = Inl TypeError"

text \<open>
  \<^verbatim>\<open>d[k] = v\<close> on an insertion-ordered dict: a key already present keeps its place and
  takes the new value, a new key goes to the end.
\<close>

fun dict_set :: "('k \<times> 'v) list \<Rightarrow> 'k \<Rightarrow> 'v \<Rightarrow> ('k \<times> 'v) list" where
  "dict_set [] k v = [(k, v)]"
| "dict_set ((k', v') # d) k v = (if k' = k then (k, v) # d else (k', v') # dict_set d k v)"

text \<open>\<^verbatim>\<open>{post['url']: post for post in matched_posts}\<close>\<close>

fun dedup_dict :: "(dict_key \<times> json) list \<Rightarrow> json list \<Rightarrow> exn + (dict_key \<times> json) list" where
  "dedup_dict d [] = Inr d"
| "dedup_dict d (post # rest) =
     bind_exn (py_index post ''url'') (\<lambda>url.
     bind_exn (hash_key url) (\<lambda>k.
       dedup_dict (dict_set d k post) rest))"

text \<open>The body of the \<^verbatim>\<open>try\<close> (lines 36 to 54).\<close>

definition search_try :: "env \<Rightarrow> string \<Rightarrow> bool \<Rightarrow> json action" where
  "search_try E keyword exact_match =
     (if exact_match then
        bind_io (requests_get_json E (exact_posts_url E keyword)) (\<lambda>response.
        bind_io (lift_exn (py_contains ''error'' response)) (\<lambda>has_error.
          if has_error then
            lift_exn
              (bind_exn (py_index response ''error'') (\<lambda>err.
               bind_exn (py_get err ''message'' (JStr ''Blogger API Error'')) (\<lambda>m.
                 Inl (ValueError m))))
          else lift_exn (py_get response ''items'' (JArr []))))
      else
        bind_io (requests_get_json E (all_posts_url E)) (\<lambda>response.
        bind_io (lift_exn (py_get response ''items'' (JArr []))) (\<lambda>all_posts.
        bind_io (lift_exn (py_iter all_posts)) (\<lambda>posts.
        bind_io (lift_exn (match_loop E keyword [] posts)) (\<lambda>matched_posts.
        bind_io (lift_exn (dedup_dict [] matched_posts)) (\<lambda>d.
          return_io (JArr (map snd d))))))))"

text \<open>\<^verbatim>\<open>search_blogger_posts\<close>: the body with its \<^verbatim>\<open>except RequestException\<close> clause.\<close>

definition search_blogger_posts :: "env \<Rightarrow> string \<Rightarrow> bool \<Rightarrow> json action" where
  "search_blogger_posts E keyword exact_match w =
     (case search_try E keyword exact_match w of
        (Inl (RequestException e), w1) \<Rightarrow>
          bind_io (print_line (Blogger_request_failed e)) (\<lambda>_. return_io (JArr [])) w1
      | r \<Rightarrow> r)"

section \<open>Request handler: \<^verbatim>\<open>webhook_handler\<close>\<close>

text \<open>
  The handler returns a JSON body and an HTTP status: \<^verbatim>\<open>{"status": "success"}, 200\<close>,
  \<^verbatim>\<open>{"status": "error", "message": "Invalid message format"}, 400\<close> or
  \<^verbatim>\<open>{"status": "error", "message": str(e)}, 500\<close>.
\<close>

datatype reply_message = Invalid_message_format | Str_of exn

record reply =
  status :: string
  message :: "reply_message option"
  http_status :: nat

definition success_200 :: reply where
  "success_200 = \<lparr>status = ''success'', message = None, http_status = 200\<rparr>"

definition invalid_400 :: reply where
  "invalid_400 = \<lparr>status = ''error'', message = Some Invalid_message_format, http_status = 400\<rparr>"

definition error_500 :: "exn \<Rightarrow> reply" where
  "error_500 e = \<lparr>status = ''error'', message = Some (Str_of e), http_status = 500\<rparr>"

text \<open>\<^verbatim>\<open>message.get("text", "").strip().lower()\<close>\<close>

fun strip_lower :: "json \<Rightarrow> exn + string" where
  "strip_lower (JStr s) = Inr (lower (strip s))"
| "strip_lower _ = Inl AttributeError"

text \<open>The argument of the call in line 93; the title is read before the url.\<close>

definition post_line :: "json \<Rightarrow> exn + notice" where
  "post_line post =
     bind_exn (py_index post ''title'') (\<lambda>title.
     bind_exn (py_index post ''url'') (\<lambda>url.
       Inr (Post_line title url)))"

text \<open>The loop of lines 92 and 93 over the elements of \<^verbatim>\<open>posts[:5]\<close>.\<close>

fun send_each :: "env \<Rightarrow> json \<Rightarrow> json list \<Rightarrow> unit action" where
  "send_each E c [] = return_io ()"
| "send_each E c (post # rest) =
     bind_io (lift_exn (post_line post)) (\<lambda>t.
     bind_io (send_to_telegram E c t) (\<lambda>_.
       send_each E c rest))"

text \<open>Lines 91 to 95, reached from both branches that found posts.\<close>

definition send_results :: "env \<Rightarrow> json \<Rightarrow> json \<Rightarrow> reply action" where
  "send_results E c posts =
     bind_io (lift_exn (bind_exn (py_slice_to 5 posts) py_iter)) (\<lambda>items.
     bind_io (send_each E c items) (\<lambda>_.
       return_io success_200))"

text \<open>Lines 73 to 95: what the handler does with a chat and a keyword.\<close>

definition search_and_reply :: "env \<Rightarrow> json \<Rightarrow> string \<Rightarrow> reply action" where
  "search_and_reply E c keyword =
     (if keyword = [] then
        bind_io (send_to_telegram E c Prompt_keyword) (\<lambda>_. return_io success_200)
      else
        bind_io (search_blogger_posts E keyword True) (\<lambda>posts.
          if \<not> truthy posts then
            bind_io (search_blogger_posts E keyword False) (\<lambda>posts.
              if truthy posts then
                bind_io (lift_exn (py_len posts)) (\<lambda>n.
                bind_io (send_to_telegram E c (Found_related n)) (\<lambda>_.
                  send_results E c posts))
              else
                bind_io (send_to_telegram E c No_matches) (\<lambda>_. return_io success_200))
          else
            bind_io (lift_exn (py_len posts)) (\<lambda>n.
            bind_io (send_to_telegram E c (Found_exact n)) (\<lambda>_.
              send_results E c posts))))"

text \<open>The condition of line 67, \<^verbatim>\<open>not message or "chat" not in message\<close>.\<close>

definition no_chat :: "json \<Rightarrow> exn + bool" where
  "no_chat msg =
     (if \<not> truthy msg then Inr True
      else bind_exn (py_contains ''chat'' msg) (\<lambda>b. Inr (\<not> b)))"

text \<open>
  Lines 65 to 70: \<open>None\<close> when line 68 returns, else the message and the \<^verbatim>\<open>chat_id\<close>
  bound in line 70.
\<close>

definition parse_update :: "json \<Rightarrow> exn + (json \<times> json) option" where
  "parse_update update =
     bind_exn (py_get update ''message'' update) (\<lambda>msg.
     bind_exn (no_chat msg) (\<lambda>invalid.
       if invalid then Inr None
       else
         bind_exn (py_index msg ''chat'') (\<lambda>chat.
         bind_exn (py_index chat ''id'') (\<lambda>c.
           Inr (Some (msg, c))))))"

text \<open>Line 71.\<close>

definition keyword_of :: "json \<Rightarrow> exn + string" where
  "keyword_of msg = bind_exn (py_get msg ''text'' (JStr [])) strip_lower"

text \<open>
  The \<^verbatim>\<open>except Exception\<close> clause: the error is printed, sent to the chat when
  \<^verbatim>\<open>chat_id\<close> is among the local variables, and answered with status 500.
\<close>

definition handler_except :: "env \<Rightarrow> json option \<Rightarrow> exn \<Rightarrow> reply action" where
  "handler_except E chat e =
     bind_io (print_line (Handler_error e)) (\<lambda>_.
     bind_io (case chat of
                None \<Rightarrow> return_io False
              | Some c \<Rightarrow> send_to_telegram E c (Error_text e)) (\<lambda>_.
       return_io (error_500 e)))"

text \<open>
  \<^verbatim>\<open>webhook_handler\<close> on the decoded body \<open>update\<close> of the request
  (\<^verbatim>\<open>request.get_json()\<close>).
\<close>

definition webhook_handler :: "env \<Rightarrow> json \<Rightarrow> reply action" where
  "webhook_handler E update w =
     (case parse_update update of
        Inl e \<Rightarrow> handler_except E None e w
      | Inr None \<Rightarrow> (Inr invalid_400, w)
      | Inr (Some (msg, c)) \<Rightarrow>
          (case bind_io (lift_exn (keyword_of msg)) (search_and_reply E c) w of
             (Inl e, w1) \<Rightarrow> handler_except E (Some c) e w1
           | r \<Rightarrow> r))"

section \<open>Auxiliary notions for the statements\<close>

text \<open>
  The notices of the posts a delivery loop gets through: those before the first post
  whose title or url cannot be read.
\<close>

fun sendable :: "json list \<Rightarrow> notice list" where
  "sendable [] = []"
| "sendable (post # rest) =
     (case post_line post of Inl e \<Rightarrow> [] | Inr t \<Rightarrow> t # sendable rest)"

fun is_post_line :: "notice \<Rightarrow> bool" where
  "is_post_line (Post_line title url) = True"
| "is_post_line _ = False"

text \<open>The texts sent to the chat, in order.\<close>

definition texts :: "world \<Rightarrow> notice list" where
  "texts w = map message_text (sent w)"

text \<open>The URL a search fetches, by mode.\<close>

definition search_url :: "env \<Rightarrow> string \<Rightarrow> bool \<Rightarrow> string" where
  "search_url E keyword exact_match =
     (if exact_match then exact_posts_url E keyword else all_posts_url E)"

text \<open>The key under which line 54 files a post.\<close>

definition url_key :: "json \<Rightarrow> exn + dict_key" where
  "url_key post = bind_exn (py_index post ''url'') hash_key"

text \<open>The url a post notice shows.\<close>

fun notice_url :: "notice \<Rightarrow> json option" where
  "notice_url (Post_line title url) = Some url"
| "notice_url _ = None"

text \<open>
  Whether a \<^verbatim>\<open>sendMessage\<close> call fails, and with which exception: \<^verbatim>\<open>requests.post\<close>
  raised, or the status is one \<^verbatim>\<open>raise_for_status\<close> rejects.
\<close>

fun post_failure :: "post_outcome \<Rightarrow> request_exception option" where
  "post_failure (Post_raises e) = Some e"
| "post_failure (Post_response code) =
     (if 400 \<le> code \<and> code < 600 then Some (HTTPError code) else None)"

text \<open>Two worlds with the same outbound calls, whatever was printed.\<close>

definition same_calls :: "world \<Rightarrow> world \<Rightarrow> bool" where
  "same_calls w w' \<longleftrightarrow> sent w = sent w' \<and> fetched w = fetched w'"

text \<open>
  The notice \<open>t\<close> shows the post \<open>post\<close>: the post is an object, and \<open>t\<close> is the post
  line of the values under its keys \<^verbatim>\<open>"title"\<close> and \<^verbatim>\<open>"url"\<close>.
\<close>

definition shows_post :: "json \<Rightarrow> notice \<Rightarrow> bool" where
  "shows_post post t =
     (case post of
        JObj kvs \<Rightarrow>
          (case (map_of kvs ''title'', map_of kvs ''url'') of
             (Some title, Some url) \<Rightarrow> t = Post_line title url
           | _ \<Rightarrow> False)
      | _ \<Rightarrow> False)"

text \<open>The labels written one after the other with a space between neighbours.\<close>

definition space_joined :: "string list \<Rightarrow> string" where
  "space_joined labels =
     (case labels of [] \<Rightarrow> [] | l # ls \<Rightarrow> l @ concat (map (\<lambda>x. CHR '' '' # x) ls))"

text \<open>
  The handler's search for \<open>kw\<close>, started in world \<open>w\<close>, finds the list \<open>ps\<close> and
  announces it under the header \<open>hdr\<close>: the exact search returned the non-empty list
  \<open>ps\<close>, or it returned nothing and the fuzzy search returned the non-empty list \<open>ps\<close>.
\<close>

definition found :: "env \<Rightarrow> string \<Rightarrow> world \<Rightarrow> (nat \<Rightarrow> notice) \<Rightarrow> json list \<Rightarrow> bool" where
  "found E kw w hdr ps \<longleftrightarrow>
     (case search_blogger_posts E kw True w of
        (Inr p1, w1) \<Rightarrow>
          if truthy p1 then p1 = JArr ps \<and> hdr = Found_exact
          else (case search_blogger_posts E kw False w1 of
                  (Inr p2, w2) \<Rightarrow> p2 = JArr ps \<and> ps \<noteq> [] \<and> hdr = Found_related
                | (Inl e, w2) \<Rightarrow> False)
      | (Inl e, w1) \<Rightarrow> False)"

text \<open>Two outcomes with the same result and the same outbound calls.\<close>

definition agree :: "(exn + 'a) \<times> world \<Rightarrow> (exn + 'a) \<times> world \<Rightarrow> bool" where
  "agree x y \<longleftrightarrow> fst x = fst y \<and> same_calls (snd x) (snd y)"

subsection \<open>Example data\<close>

definition post_of :: "string \<Rightarrow> string \<Rightarrow> string list \<Rightarrow> json" where
  "post_of title url labels =
     JObj [(''title'', JStr title), (''url'', JStr url), (''labels'', JArr (map JStr labels))]"

definition message_of :: "int \<Rightarrow> string \<Rightarrow> json" where
  "message_of chat txt = JObj [(''chat'', JObj [(''id'', JNum chat)]), (''text'', JStr txt)]"

definition update_of :: "int \<Rightarrow> string \<Rightarrow> json" where
  "update_of chat txt = JObj [(''update_id'', JNum 1), (''message'', message_of chat txt)]"

text \<open>
  A blog of eight posts. The exact search for a keyword answers with the posts that carry
  it as a label. \<open>demo_ratio\<close> has the ratios of \<^verbatim>\<open>difflib\<close> for the labels of this blog
  (lower-cased and stripped) against the keywords \<^verbatim>\<open>pythn\<close>, \<^verbatim>\<open>n b\<close> and \<^verbatim>\<open>zzz\<close>, the only
  pairs the examples ask for.
\<close>

definition demo_blog :: "json list" where
  "demo_blog =
     [post_of ''Intro'' ''u1'' ['' Python '', ''basics''],
      post_of ''Loops'' ''u2'' [''python''],
      post_of ''Loops again'' ''u2'' [''python''],
      post_of ''Types'' ''u3'' [''python'', ''typing''],
      post_of ''Tests'' ''u4'' [''python''],
      post_of ''Tools'' ''u5'' [''python''],
      post_of ''Async'' ''u7'' [''python'', ''asyncio''],
      post_of ''Cooking'' ''u6'' [''food'']]"

text \<open>
  The posts the fuzzy search for \<^verbatim>\<open>pythn\<close> returns on this blog: the seven posts with a
  label close to it, one per url, the later of the two that share \<^verbatim>\<open>u2\<close>.
\<close>

definition pythn_posts :: "json list" where
  "pythn_posts =
     [post_of ''Intro'' ''u1'' ['' Python '', ''basics''],
      post_of ''Loops again'' ''u2'' [''python''],
      post_of ''Types'' ''u3'' [''python'', ''typing''],
      post_of ''Tests'' ''u4'' [''python''],
      post_of ''Tools'' ''u5'' [''python''],
      post_of ''Async'' ''u7'' [''python'', ''asyncio'']]"

text \<open>The posts the Blogger API lists under the label \<^verbatim>\<open>python\<close>.\<close>

definition python_posts :: "json list" where
  "python_posts =
     [post_of ''Loops'' ''u2'' [''python''],
      post_of ''Loops again'' ''u2'' [''python''],
      post_of ''Types'' ''u3'' [''python'', ''typing''],
      post_of ''Tests'' ''u4'' [''python''],
      post_of ''Tools'' ''u5'' [''python''],
      post_of ''Async'' ''u7'' [''python'', ''asyncio'']]"

definition has_label :: "string \<Rightarrow> json \<Rightarrow> bool" where
  "has_label keyword post =
     (case py_get post ''labels'' (JArr []) of
        Inr (JArr ls) \<Rightarrow> JStr keyword \<in> set ls
      | _ \<Rightarrow> False)"

definition demo_ratio :: "string \<Rightarrow> string \<Rightarrow> rat" where
  "demo_ratio a b =
     (if a = b then 1
      else if b = ''pythn'' then
        (if a = ''python'' then 10 / 11
         else if a = ''typing'' then 4 / 11
         else if a = ''asyncio'' then 1 / 3
         else 0)
      else if b = ''n b'' then
        (if a = ''python'' \<or> a = ''basics'' \<or> a = ''typing'' then 2 / 9
         else if a = ''asyncio'' then 1 / 5
         else 0)
      else 0)"

definition demo_env :: env where
  "demo_env =
     \<lparr>BLOG_ID = Some ''1'', API_KEY = Some ''k'', TELEGRAM_TOKEN = Some ''t'',
      http_get = (\<lambda>url.
        if url = ''https://www.googleapis.com/blogger/v3/blogs/1/posts?key=k''
        then Inr (JObj [(''kind'', JStr ''blogger#postList''), (''items'', JArr demo_blog)])
        else if url = ''https://www.googleapis.com/blogger/v3/blogs/1/posts?labels=python&key=k''
        then Inr (JObj [(''kind'', JStr ''blogger#postList''),
                        (''items'', JArr (filter (has_label ''python'') demo_blog))])
        else Inr (JObj [(''kind'', JStr ''blogger#postList'')])),
      http_post = (\<lambda>n url body. if n = 1 then Post_response 429 else Post_response 200),
      ratio = demo_ratio\<rparr>"

text \<open>The same blog behind an API key the Blogger API rejects, and behind a dead network.\<close>

definition api_error :: json where
  "api_error =
     JObj [(''error'', JObj [(''code'', JNum 400), (''message'', JStr ''API key not valid'')])]"

definition demo_env_bad_key :: env where
  "demo_env_bad_key = demo_env\<lparr>http_get := (\<lambda>url. Inr api_error)\<rparr>"

definition demo_env_offline :: env where
  "demo_env_offline = demo_env\<lparr>http_get := (\<lambda>url. Inl (RequestException Timeout))\<rparr>"

section \<open>Basic facts\<close>

lemma is_substring_iff: "is_substring sub s \<longleftrightarrow> (\<exists>pre suf. s = pre @ sub @ suf)"
proof (induction s)
  case Nil
  then show ?case by auto
next
  case (Cons c cs)
  show ?case
  proof
    assume "is_substring sub (c # cs)"
    then consider "prefix sub (c # cs)" | "is_substring sub cs" by auto
    then show "\<exists>pre suf. c # cs = pre @ sub @ suf"
    proof cases
      case 1
      then obtain suf where "c # cs = sub @ suf" by (auto simp: prefix_def)
      then have "c # cs = [] @ sub @ suf" by simp
      then show ?thesis by blast
    next
      case 2
      with Cons.IH obtain pre suf where "cs = pre @ sub @ suf" by blast
      then have "c # cs = (c # pre) @ sub @ suf" by simp
      then show ?thesis by blast
    qed
  next
    assume "\<exists>pre suf. c # cs = pre @ sub @ suf"
    then obtain pre suf where eq: "c # cs = pre @ sub @ suf" by blast
    show "is_substring sub (c # cs)"
    proof (cases pre)
      case Nil
      with eq have "prefix sub (c # cs)" by (simp add: prefix_def)
      then show ?thesis by simp
    next
      case (Cons p pre')
      with eq have "cs = pre' @ sub @ suf" by simp
      with Cons.IH have "is_substring sub cs" by blast
      then show ?thesis by simp
    qed
  qed
qed

lemma world0_simps [simp]:
  "sent world0 = []" "fetched world0 = []" "console world0 = []"
  by (simp_all add: world0_def)

lemma world_console_append_Nil: "w\<lparr>console := console w @ []\<rparr> = w"
  by simp

lemma send_to_telegram_eq:
  "send_to_telegram E c t w =
     (case http_post E (length (sent w)) (send_message_url E) (message_to c t) of
        Post_raises e \<Rightarrow>
          (Inr False, w\<lparr>sent := sent w @ [message_to c t],
                         console := console w @ [Telegram_api_error e]\<rparr>)
      | Post_response code \<Rightarrow>
          if 400 \<le> code \<and> code < 600
          then (Inr False, w\<lparr>sent := sent w @ [message_to c t],
                              console := console w @ [Telegram_api_error (HTTPError code)]\<rparr>)
          else (Inr True, w\<lparr>sent := sent w @ [message_to c t]\<rparr>))"
  by (cases "http_post E (length (sent w)) (send_message_url E) (message_to c t)")
     (simp_all add: send_to_telegram_def send_to_telegram_try_def requests_post_def
        raise_for_status_def bind_io_def return_io_def lift_exn_def print_line_def)

lemma send_to_telegram_cases:
  obtains b l where
    "send_to_telegram E c t w =
       (Inr b, w\<lparr>sent := sent w @ [message_to c t], console := console w @ l\<rparr>)"
proof (cases "http_post E (length (sent w)) (send_message_url E) (message_to c t)")
  case (Post_raises e)
  then have "send_to_telegram E c t w =
      (Inr False, w\<lparr>sent := sent w @ [message_to c t],
                     console := console w @ [Telegram_api_error e]\<rparr>)"
    by (simp add: send_to_telegram_eq)
  then show thesis by (rule that)
next
  case (Post_response code)
  show thesis
  proof (cases "400 \<le> code \<and> code < 600")
    case True
    with Post_response have "send_to_telegram E c t w =
        (Inr False, w\<lparr>sent := sent w @ [message_to c t],
                       console := console w @ [Telegram_api_error (HTTPError code)]\<rparr>)"
      by (simp add: send_to_telegram_eq)
    then show thesis by (rule that)
  next
    case False
    with Post_response have "send_to_telegram E c t w =
        (Inr True, w\<lparr>sent := sent w @ [message_to c t], console := console w @ []\<rparr>)"
      by (simp add: send_to_telegram_eq)
    then show thesis by (rule that)
  qed
qed

lemma send_each_sent:
  "sent (snd (send_each E c items w)) = sent w @ map (message_to c) (sendable items)"
proof (induction items arbitrary: w)
  case Nil
  then show ?case by (simp add: return_io_def)
next
  case (Cons post rest)
  show ?case
  proof (cases "post_line post")
    case (Inl e)
    then show ?thesis by (simp add: bind_io_def lift_exn_def)
  next
    case (Inr t)
    obtain b l where s: "send_to_telegram E c t w =
        (Inr b, w\<lparr>sent := sent w @ [message_to c t], console := console w @ l\<rparr>)"
      by (rule send_to_telegram_cases)
    show ?thesis using Inr s Cons.IH by (simp add: bind_io_def lift_exn_def)
  qed
qed

lemma send_each_fetched: "fetched (snd (send_each E c items w)) = fetched w"
proof (induction items arbitrary: w)
  case Nil
  then show ?case by (simp add: return_io_def)
next
  case (Cons post rest)
  show ?case
  proof (cases "post_line post")
    case (Inl e)
    then show ?thesis by (simp add: bind_io_def lift_exn_def)
  next
    case (Inr t)
    obtain b l where s: "send_to_telegram E c t w =
        (Inr b, w\<lparr>sent := sent w @ [message_to c t], console := console w @ l\<rparr>)"
      by (rule send_to_telegram_cases)
    show ?thesis using Inr s Cons.IH by (simp add: bind_io_def lift_exn_def)
  qed
qed

lemma send_each_result:
  "fst (send_each E c items w) =
     (case map_exn post_line items of Inl e \<Rightarrow> Inl e | Inr ts \<Rightarrow> Inr ())"
proof (induction items arbitrary: w)
  case Nil
  then show ?case by (simp add: return_io_def)
next
  case (Cons post rest)
  show ?case
  proof (cases "post_line post")
    case (Inl e)
    then show ?thesis by (simp add: bind_io_def lift_exn_def bind_exn_def)
  next
    case (Inr t)
    obtain b l where s: "send_to_telegram E c t w =
        (Inr b, w\<lparr>sent := sent w @ [message_to c t], console := console w @ l\<rparr>)"
      by (rule send_to_telegram_cases)
    show ?thesis using Inr s Cons.IH
      by (simp add: bind_io_def lift_exn_def bind_exn_def split: sum.splits)
  qed
qed

lemma sendable_all:
  "map_exn post_line items = Inr ts \<Longrightarrow> sendable items = ts"
  by (induction items arbitrary: ts) (auto simp: bind_exn_def split: sum.splits)

lemma sendable_prefix: "prefix (map Inr (sendable items)) (map post_line items)"
  by (induction items) (auto split: sum.splits)

lemma length_sendable: "length (sendable items) \<le> length items"
  by (induction items) (auto split: sum.splits)

lemma sendable_post_lines: "\<forall>t \<in> set (sendable items). is_post_line t"
  by (induction items) (auto simp: post_line_def bind_exn_def split: sum.splits)

subsection \<open>What a search does to the world\<close>

lemma search_try_world:
  "search_try E kw ex w =
     (fst (search_try E kw ex world0), w\<lparr>fetched := fetched w @ [search_url E kw ex]\<rparr>)"
  by (cases ex)
     (auto simp: search_try_def search_url_def requests_get_json_def bind_io_def
        lift_exn_def return_io_def split: sum.splits)

lemma search_blogger_posts_raises:
  assumes "fst (search_try E kw ex world0) = Inl e" "\<forall>r. e \<noteq> RequestException r"
  shows "search_blogger_posts E kw ex w =
           (Inl e, w\<lparr>fetched := fetched w @ [search_url E kw ex]\<rparr>)"
proof -
  have "search_try E kw ex w = (Inl e, w\<lparr>fetched := fetched w @ [search_url E kw ex]\<rparr>)"
    using assms(1) search_try_world [of E kw ex w] by simp
  then show ?thesis using assms(2)
    by (cases e) (simp_all add: search_blogger_posts_def)
qed

lemma search_blogger_posts_caught:
  assumes "fst (search_try E kw ex world0) = Inl (RequestException r)"
  shows "search_blogger_posts E kw ex w =
           (Inr (JArr []), w\<lparr>fetched := fetched w @ [search_url E kw ex],
                              console := console w @ [Blogger_request_failed r]\<rparr>)"
proof -
  have "search_try E kw ex w =
          (Inl (RequestException r), w\<lparr>fetched := fetched w @ [search_url E kw ex]\<rparr>)"
    using assms search_try_world [of E kw ex w] by simp
  then show ?thesis
    by (simp add: search_blogger_posts_def bind_io_def print_line_def return_io_def)
qed

lemma search_blogger_posts_returns:
  assumes "fst (search_try E kw ex world0) = Inr v"
  shows "search_blogger_posts E kw ex w =
           (Inr v, w\<lparr>fetched := fetched w @ [search_url E kw ex]\<rparr>)"
proof -
  have "search_try E kw ex w = (Inr v, w\<lparr>fetched := fetched w @ [search_url E kw ex]\<rparr>)"
    using assms search_try_world [of E kw ex w] by simp
  then show ?thesis by (simp add: search_blogger_posts_def)
qed

lemma search_blogger_posts_cases:
  obtains r l where
    "search_blogger_posts E kw ex w =
       (r, w\<lparr>fetched := fetched w @ [search_url E kw ex], console := console w @ l\<rparr>)"
    "\<forall>u. fst (search_blogger_posts E kw ex u) = r"
proof (cases "fst (search_try E kw ex world0)")
  case (Inr v)
  have "search_blogger_posts E kw ex w =
      (Inr v, w\<lparr>fetched := fetched w @ [search_url E kw ex], console := console w @ []\<rparr>)"
    using search_blogger_posts_returns [OF Inr] by simp
  moreover have "\<forall>u. fst (search_blogger_posts E kw ex u) = Inr v"
    using search_blogger_posts_returns [OF Inr] by simp
  ultimately show thesis by (rule that)
next
  case (Inl e)
  show thesis
  proof (cases "\<exists>r. e = RequestException r")
    case True
    then obtain r where e: "e = RequestException r" by blast
    note c = search_blogger_posts_caught [OF Inl [unfolded e]]
    have "\<forall>u. fst (search_blogger_posts E kw ex u) = Inr (JArr [])"
      using c by simp
    with c [of w] show thesis by (rule that)
  next
    case False
    then have ne: "\<forall>r. e \<noteq> RequestException r" by blast
    note c = search_blogger_posts_raises [OF Inl ne]
    have "search_blogger_posts E kw ex w =
        (Inl e, w\<lparr>fetched := fetched w @ [search_url E kw ex], console := console w @ []\<rparr>)"
      using c [of w] by simp
    moreover have "\<forall>u. fst (search_blogger_posts E kw ex u) = Inl e"
      using c by simp
    ultimately show thesis by (rule that)
  qed
qed

lemma search_blogger_posts_sent: "sent (snd (search_blogger_posts E kw ex w)) = sent w"
proof -
  obtain r l where "search_blogger_posts E kw ex w =
      (r, w\<lparr>fetched := fetched w @ [search_url E kw ex], console := console w @ l\<rparr>)"
    by (rule search_blogger_posts_cases)
  then show ?thesis by simp
qed

lemma search_blogger_posts_fetched:
  "fetched (snd (search_blogger_posts E kw ex w)) = fetched w @ [search_url E kw ex]"
proof -
  obtain r l where "search_blogger_posts E kw ex w =
      (r, w\<lparr>fetched := fetched w @ [search_url E kw ex], console := console w @ l\<rparr>)"
    by (rule search_blogger_posts_cases)
  then show ?thesis by simp
qed

subsection \<open>The handler, step by step\<close>

lemma send_to_telegram_fetched: "fetched (snd (send_to_telegram E c t w)) = fetched w"
proof -
  obtain b l where "send_to_telegram E c t w =
      (Inr b, w\<lparr>sent := sent w @ [message_to c t], console := console w @ l\<rparr>)"
    by (rule send_to_telegram_cases)
  then show ?thesis by simp
qed

lemma send_then:
  obtains b w1 where
    "send_to_telegram E c t w = (Inr b, w1)"
    "sent w1 = sent w @ [message_to c t]"
    "fetched w1 = fetched w"
proof -
  obtain b l where "send_to_telegram E c t w =
      (Inr b, w\<lparr>sent := sent w @ [message_to c t], console := console w @ l\<rparr>)"
    by (rule send_to_telegram_cases)
  then show thesis using that by simp
qed

lemma send_results_list:
  "fst (send_results E c (JArr ps) w) =
     (case map_exn post_line (take 5 ps) of Inl e \<Rightarrow> Inl e | Inr ts \<Rightarrow> Inr success_200)"
  "sent (snd (send_results E c (JArr ps) w)) =
     sent w @ map (message_to c) (sendable (take 5 ps))"
  "fetched (snd (send_results E c (JArr ps) w)) = fetched w"
proof -
  obtain r w1 where e: "send_each E c (take 5 ps) w = (r, w1)"
    by (cases "send_each E c (take 5 ps) w")
  have r: "r = (case map_exn post_line (take 5 ps) of Inl e \<Rightarrow> Inl e | Inr ts \<Rightarrow> Inr ())"
    using send_each_result [of E c "take 5 ps" w] e by simp
  have s: "sent w1 = sent w @ map (message_to c) (sendable (take 5 ps))"
    using send_each_sent [of E c "take 5 ps" w] e by simp
  have f: "fetched w1 = fetched w"
    using send_each_fetched [of E c "take 5 ps" w] e by simp
  have eq: "send_results E c (JArr ps) w =
      (case r of Inl e \<Rightarrow> (Inl e, w1) | Inr u \<Rightarrow> (Inr success_200, w1))"
    using e by (simp add: send_results_def bind_io_def lift_exn_def bind_exn_def return_io_def
        split: sum.splits)
  show "fst (send_results E c (JArr ps) w) =
     (case map_exn post_line (take 5 ps) of Inl e \<Rightarrow> Inl e | Inr ts \<Rightarrow> Inr success_200)"
    using eq r by (simp split: sum.splits)
  show "sent (snd (send_results E c (JArr ps) w)) =
     sent w @ map (message_to c) (sendable (take 5 ps))"
    using eq s by (simp split: sum.splits)
  show "fetched (snd (send_results E c (JArr ps) w)) = fetched w"
    using eq f by (simp split: sum.splits)
qed

lemma handler_except_chat:
  "fst (handler_except E (Some c) e w) = Inr (error_500 e)"
  "sent (snd (handler_except E (Some c) e w)) = sent w @ [message_to c (Error_text e)]"
  "fetched (snd (handler_except E (Some c) e w)) = fetched w"
proof -
  let ?w = "w\<lparr>console := console w @ [Handler_error e]\<rparr>"
  obtain b w1 where s: "send_to_telegram E c (Error_text e) ?w = (Inr b, w1)"
    "sent w1 = sent ?w @ [message_to c (Error_text e)]" "fetched w1 = fetched ?w"
    by (rule send_then)
  have eq: "handler_except E (Some c) e w = (Inr (error_500 e), w1)"
    using s(1) by (simp add: handler_except_def bind_io_def print_line_def return_io_def)
  show "fst (handler_except E (Some c) e w) = Inr (error_500 e)" using eq by simp
  show "sent (snd (handler_except E (Some c) e w)) = sent w @ [message_to c (Error_text e)]"
    using eq s(2) by simp
  show "fetched (snd (handler_except E (Some c) e w)) = fetched w"
    using eq s(3) by simp
qed

lemma handler_except_no_chat:
  "handler_except E None e w =
     (Inr (error_500 e), w\<lparr>console := console w @ [Handler_error e]\<rparr>)"
  by (simp add: handler_except_def bind_io_def print_line_def return_io_def)

lemma webhook_handler_parsed:
  assumes "parse_update update = Inr (Some (msg, c))" "keyword_of msg = Inr kw"
  shows "webhook_handler E update w =
           (case search_and_reply E c kw w of
              (Inl e, w1) \<Rightarrow> handler_except E (Some c) e w1
            | (Inr r, w1) \<Rightarrow> (Inr r, w1))"
  using assms
  by (simp add: webhook_handler_def bind_io_def lift_exn_def split: prod.splits sum.splits)

lemma webhook_handler_result:
  assumes "parse_update update = Inr (Some (msg, c))" "keyword_of msg = Inr kw"
  shows
    "fst (webhook_handler E update w) =
       (case fst (search_and_reply E c kw w) of Inl e \<Rightarrow> Inr (error_500 e) | Inr r \<Rightarrow> Inr r)"
    "sent (snd (webhook_handler E update w)) =
       sent (snd (search_and_reply E c kw w))
         @ (case fst (search_and_reply E c kw w) of
              Inl e \<Rightarrow> [message_to c (Error_text e)] | Inr r \<Rightarrow> [])"
    "fetched (snd (webhook_handler E update w)) = fetched (snd (search_and_reply E c kw w))"
proof -
  obtain r w1 where sr: "search_and_reply E c kw w = (r, w1)"
    by (cases "search_and_reply E c kw w")
  note h = webhook_handler_parsed [OF assms, of E w]
  show "fst (webhook_handler E update w) =
       (case fst (search_and_reply E c kw w) of Inl e \<Rightarrow> Inr (error_500 e) | Inr r \<Rightarrow> Inr r)"
    using h sr by (cases r) (simp_all add: handler_except_chat)
  show "sent (snd (webhook_handler E update w)) =
       sent (snd (search_and_reply E c kw w))
         @ (case fst (search_and_reply E c kw w) of
              Inl e \<Rightarrow> [message_to c (Error_text e)] | Inr r \<Rightarrow> [])"
    using h sr by (cases r) (simp_all add: handler_except_chat)
  show "fetched (snd (webhook_handler E update w)) = fetched (snd (search_and_reply E c kw w))"
    using h sr by (cases r) (simp_all add: handler_except_chat)
qed

lemma announce_and_send:
  fixes hdr :: "nat \<Rightarrow> notice"
  defines "act \<equiv> (\<lambda>E c ps.
     bind_io (lift_exn (py_len (JArr ps))) (\<lambda>n.
     bind_io (send_to_telegram E c (hdr n)) (\<lambda>_. send_results E c (JArr ps))))"
  shows
    "fst (act E c ps w) =
       (case map_exn post_line (take 5 ps) of Inl e \<Rightarrow> Inl e | Inr ts \<Rightarrow> Inr success_200)"
    "sent (snd (act E c ps w)) =
       sent w @ message_to c (hdr (length ps)) # map (message_to c) (sendable (take 5 ps))"
    "fetched (snd (act E c ps w)) = fetched w"
proof -
  obtain b w1 where s: "send_to_telegram E c (hdr (length ps)) w = (Inr b, w1)"
    "sent w1 = sent w @ [message_to c (hdr (length ps))]" "fetched w1 = fetched w"
    by (rule send_then)
  have eq: "act E c ps w = send_results E c (JArr ps) w1"
    using s(1) by (simp add: act_def bind_io_def lift_exn_def)
  show "fst (act E c ps w) =
       (case map_exn post_line (take 5 ps) of Inl e \<Rightarrow> Inl e | Inr ts \<Rightarrow> Inr success_200)"
    by (simp add: eq send_results_list)
  show "sent (snd (act E c ps w)) =
       sent w @ message_to c (hdr (length ps)) # map (message_to c) (sendable (take 5 ps))"
    by (simp add: eq send_results_list s(2))
  show "fetched (snd (act E c ps w)) = fetched w"
    by (simp add: eq send_results_list s(3))
qed

lemma search_and_reply_exact:
  assumes "kw \<noteq> []" "search_blogger_posts E kw True w = (Inr (JArr ps), w1)" "ps \<noteq> []"
  shows
    "fst (search_and_reply E c kw w) =
       (case map_exn post_line (take 5 ps) of Inl e \<Rightarrow> Inl e | Inr ts \<Rightarrow> Inr success_200)"
    "sent (snd (search_and_reply E c kw w)) =
       sent w @ message_to c (Found_exact (length ps))
         # map (message_to c) (sendable (take 5 ps))"
    "fetched (snd (search_and_reply E c kw w)) = fetched w @ [exact_posts_url E kw]"
proof -
  have eq: "search_and_reply E c kw w =
      bind_io (lift_exn (py_len (JArr ps))) (\<lambda>n.
      bind_io (send_to_telegram E c (Found_exact n)) (\<lambda>_. send_results E c (JArr ps))) w1"
    using assms by (simp add: search_and_reply_def bind_io_def)
  have w1: "sent w1 = sent w" "fetched w1 = fetched w @ [exact_posts_url E kw]"
    using search_blogger_posts_sent [of E kw True w]
      search_blogger_posts_fetched [of E kw True w] assms(2)
    by (simp_all add: search_url_def)
  show "fst (search_and_reply E c kw w) =
       (case map_exn post_line (take 5 ps) of Inl e \<Rightarrow> Inl e | Inr ts \<Rightarrow> Inr success_200)"
    unfolding eq by (rule announce_and_send(1))
  show "sent (snd (search_and_reply E c kw w)) =
       sent w @ message_to c (Found_exact (length ps))
         # map (message_to c) (sendable (take 5 ps))"
    unfolding eq announce_and_send(2) by (simp add: w1)
  show "fetched (snd (search_and_reply E c kw w)) = fetched w @ [exact_posts_url E kw]"
    unfolding eq announce_and_send(3) by (simp add: w1)
qed

lemma search_and_reply_related:
  assumes "kw \<noteq> []" "search_blogger_posts E kw True w = (Inr p1, w1)" "\<not> truthy p1"
    and "search_blogger_posts E kw False w1 = (Inr (JArr ps), w2)" "ps \<noteq> []"
  shows
    "fst (search_and_reply E c kw w) =
       (case map_exn post_line (take 5 ps) of Inl e \<Rightarrow> Inl e | Inr ts \<Rightarrow> Inr success_200)"
    "sent (snd (search_and_reply E c kw w)) =
       sent w @ message_to c (Found_related (length ps))
         # map (message_to c) (sendable (take 5 ps))"
    "fetched (snd (search_and_reply E c kw w)) =
       fetched w @ [exact_posts_url E kw, all_posts_url E]"
proof -
  have eq: "search_and_reply E c kw w =
      bind_io (lift_exn (py_len (JArr ps))) (\<lambda>n.
      bind_io (send_to_telegram E c (Found_related n)) (\<lambda>_. send_results E c (JArr ps))) w2"
    using assms by (simp add: search_and_reply_def bind_io_def)
  have w1: "sent w1 = sent w" "fetched w1 = fetched w @ [exact_posts_url E kw]"
    using search_blogger_posts_sent [of E kw True w]
      search_blogger_posts_fetched [of E kw True w] assms(2)
    by (simp_all add: search_url_def)
  have w2: "sent w2 = sent w" "fetched w2 = fetched w @ [exact_posts_url E kw, all_posts_url E]"
    using search_blogger_posts_sent [of E kw False w1]
      search_blogger_posts_fetched [of E kw False w1] assms(4) w1
    by (simp_all add: search_url_def)
  show "fst (search_and_reply E c kw w) =
       (case map_exn post_line (take 5 ps) of Inl e \<Rightarrow> Inl e | Inr ts \<Rightarrow> Inr success_200)"
    unfolding eq by (rule announce_and_send(1))
  show "sent (snd (search_and_reply E c kw w)) =
       sent w @ message_to c (Found_related (length ps))
         # map (message_to c) (sendable (take 5 ps))"
    unfolding eq announce_and_send(2) by (simp add: w2)
  show "fetched (snd (search_and_reply E c kw w)) =
       fetched w @ [exact_posts_url E kw, all_posts_url E]"
    unfolding eq announce_and_send(3) by (simp add: w2)
qed

lemma search_and_reply_none:
  assumes "kw \<noteq> []" "search_blogger_posts E kw True w = (Inr p1, w1)" "\<not> truthy p1"
    and "search_blogger_posts E kw False w1 = (Inr p2, w2)" "\<not> truthy p2"
  shows
    "fst (search_and_reply E c kw w) = Inr success_200"
    "sent (snd (search_and_reply E c kw w)) = sent w @ [message_to c No_matches]"
    "fetched (snd (search_and_reply E c kw w)) =
       fetched w @ [exact_posts_url E kw, all_posts_url E]"
proof -
  obtain b w3 where s: "send_to_telegram E c No_matches w2 = (Inr b, w3)"
    "sent w3 = sent w2 @ [message_to c No_matches]" "fetched w3 = fetched w2"
    by (rule send_then)
  have eq: "search_and_reply E c kw w = (Inr success_200, w3)"
    using assms s(1) by (simp add: search_and_reply_def bind_io_def return_io_def)
  have w1: "sent w1 = sent w" "fetched w1 = fetched w @ [exact_posts_url E kw]"
    using search_blogger_posts_sent [of E kw True w]
      search_blogger_posts_fetched [of E kw True w] assms(2)
    by (simp_all add: search_url_def)
  have w2: "sent w2 = sent w" "fetched w2 = fetched w @ [exact_posts_url E kw, all_posts_url E]"
    using search_blogger_posts_sent [of E kw False w1]
      search_blogger_posts_fetched [of E kw False w1] assms(4) w1
    by (simp_all add: search_url_def)
  show "fst (search_and_reply E c kw w) = Inr success_200" using eq by simp
  show "sent (snd (search_and_reply E c kw w)) = sent w @ [message_to c No_matches]"
    using eq s(2) w2 by simp
  show "fetched (snd (search_and_reply E c kw w)) =
       fetched w @ [exact_posts_url E kw, all_posts_url E]"
    using eq s(3) w2 by simp
qed

subsection \<open>The fuzzy search and its result\<close>

lemma search_fuzzy_result:
  assumes "search_blogger_posts E kw False w = (Inr v, w1)"
  shows "v = JArr [] \<or>
     (\<exists>response all_posts posts matched d.
        http_get E (all_posts_url E) = Inr response
        \<and> py_get response ''items'' (JArr []) = Inr all_posts
        \<and> py_iter all_posts = Inr posts
        \<and> match_loop E kw [] posts = Inr matched
        \<and> dedup_dict [] matched = Inr d
        \<and> v = JArr (map snd d))"
  using assms
  by (auto simp: search_blogger_posts_def search_try_def requests_get_json_def bind_io_def
      lift_exn_def return_io_def print_line_def
      split: sum.splits exn.splits prod.splits if_splits)

lemma search_fuzzy_list:
  assumes "search_blogger_posts E kw False w = (Inr v, w1)"
  obtains ps where "v = JArr ps"
  using search_fuzzy_result [OF assms] by blast

lemma search_and_reply_fallback_fetched:
  assumes "kw \<noteq> []" "search_blogger_posts E kw True w = (Inr p1, w1)" "\<not> truthy p1"
  shows "fetched (snd (search_and_reply E c kw w)) =
           fetched w @ [exact_posts_url E kw, all_posts_url E]"
proof -
  obtain r w2 where f: "search_blogger_posts E kw False w1 = (r, w2)"
    by (cases "search_blogger_posts E kw False w1")
  show ?thesis
  proof (cases r)
    case (Inl e)
    have "fetched w1 = fetched w @ [exact_posts_url E kw]"
      using search_blogger_posts_fetched [of E kw True w] assms(2)
      by (simp add: search_url_def)
    moreover have "fetched w2 = fetched w1 @ [all_posts_url E]"
      using search_blogger_posts_fetched [of E kw False w1] f
      by (simp add: search_url_def)
    moreover have "search_and_reply E c kw w = (Inl e, w2)"
      using assms f Inl by (simp add: search_and_reply_def bind_io_def)
    ultimately show ?thesis by simp
  next
    case (Inr v)
    then obtain ps where v: "v = JArr ps"
      using f search_fuzzy_list by blast
    show ?thesis
    proof (cases "ps = []")
      case True
      then have "\<not> truthy v" using v by simp
      then show ?thesis
        using search_and_reply_none(3) [OF assms f [unfolded Inr]] by simp
    next
      case False
      then show ?thesis
        using search_and_reply_related(3) [OF assms f [unfolded Inr v]] by simp
    qed
  qed
qed

section \<open>The notifier\<close>

text \<open>
  C8. For every chat and text, \<^verbatim>\<open>send_to_telegram\<close> returns a boolean and never raises:
  when the outbound call fails in transport or comes back with a status that
  \<^verbatim>\<open>raise_for_status\<close> rejects (4xx, 5xx), the failure is printed and the result is
  \<^verbatim>\<open>False\<close>; otherwise the result is \<^verbatim>\<open>True\<close>. Either way exactly one call went out.
\<close>

theorem send_to_telegram_returns_bool:
  "send_to_telegram E c t w =
     (case post_failure (http_post E (length (sent w)) (send_message_url E) (message_to c t)) of
        None \<Rightarrow> (Inr True, w\<lparr>sent := sent w @ [message_to c t]\<rparr>)
      | Some e \<Rightarrow>
          (Inr False, w\<lparr>sent := sent w @ [message_to c t],
                         console := console w @ [Telegram_api_error e]\<rparr>))"
  by (cases "http_post E (length (sent w)) (send_message_url E) (message_to c t)")
     (simp_all add: send_to_telegram_eq)

theorem send_to_telegram_returns_bool_witness:
  "send_to_telegram demo_env (JNum 7) No_matches
       (world0\<lparr>sent := [message_to (JNum 7) (Found_exact 1)]\<rparr>) =
     (Inr False,
      \<lparr>sent = [message_to (JNum 7) (Found_exact 1), message_to (JNum 7) No_matches],
       fetched = [],
       console = [Telegram_api_error (HTTPError 429)]\<rparr>)"
  using send_to_telegram_returns_bool
    [of demo_env "JNum 7" No_matches "world0\<lparr>sent := [message_to (JNum 7) (Found_exact 1)]\<rparr>"]
  by (simp add: demo_env_def world0_def)

section \<open>Search failures\<close>

lemma search_try_transport_failure:
  assumes "http_get E (search_url E kw ex) = Inl e"
  shows "fst (search_try E kw ex world0) = Inl e"
  using assms
  by (cases ex)
     (simp_all add: search_try_def search_url_def requests_get_json_def bind_io_def)

text \<open>
  C2. When the request to the Blogger API fails in transport (a timeout is one such
  failure), \<^verbatim>\<open>search_blogger_posts\<close> prints the failure and returns the empty list instead
  of raising, in either mode. When this happens to the exact search of a handler
  invocation, the handler sees an empty result and fetches the unfiltered posts next:
  the fuzzy search is attempted.
\<close>

theorem search_transport_failure_is_empty:
  "(http_get E (search_url E kw ex) = Inl (RequestException r) \<longrightarrow>
      search_blogger_posts E kw ex w =
        (Inr (JArr []), w\<lparr>fetched := fetched w @ [search_url E kw ex],
                           console := console w @ [Blogger_request_failed r]\<rparr>))
   \<and> (parse_update update = Inr (Some (msg, c)) \<and> keyword_of msg = Inr kw \<and> kw \<noteq> []
        \<and> http_get E (exact_posts_url E kw) = Inl (RequestException Timeout) \<longrightarrow>
      fst (search_blogger_posts E kw True w) = Inr (JArr [])
      \<and> fetched (snd (webhook_handler E update w)) =
          fetched w @ [exact_posts_url E kw, all_posts_url E])"
proof (intro conjI impI)
  assume "http_get E (search_url E kw ex) = Inl (RequestException r)"
  then show "search_blogger_posts E kw ex w =
        (Inr (JArr []), w\<lparr>fetched := fetched w @ [search_url E kw ex],
                           console := console w @ [Blogger_request_failed r]\<rparr>)"
    by (intro search_blogger_posts_caught search_try_transport_failure)
next
  assume a: "parse_update update = Inr (Some (msg, c)) \<and> keyword_of msg = Inr kw \<and> kw \<noteq> []
        \<and> http_get E (exact_posts_url E kw) = Inl (RequestException Timeout)"
  then have "http_get E (search_url E kw True) = Inl (RequestException Timeout)"
    by (simp add: search_url_def)
  then have s: "search_blogger_posts E kw True w =
      (Inr (JArr []), w\<lparr>fetched := fetched w @ [search_url E kw True],
                         console := console w @ [Blogger_request_failed Timeout]\<rparr>)"
    by (intro search_blogger_posts_caught search_try_transport_failure)
  then show "fst (search_blogger_posts E kw True w) = Inr (JArr [])" by simp
  have "fetched (snd (search_and_reply E c kw w)) =
          fetched w @ [exact_posts_url E kw, all_posts_url E]"
    using a by (intro search_and_reply_fallback_fetched [OF _ s]) simp_all
  then show "fetched (snd (webhook_handler E update w)) =
          fetched w @ [exact_posts_url E kw, all_posts_url E]"
    using a webhook_handler_result(3) [of update msg c kw E w] by simp
qed

lemma parse_update_of:
  "parse_update (update_of n txt) = Inr (Some (message_of n txt, JNum n))"
  by (simp add: parse_update_def update_of_def message_of_def no_chat_def bind_exn_def)

lemma keyword_of_message_of: "keyword_of (message_of n txt) = Inr (lower (strip txt))"
  by (simp add: keyword_of_def message_of_def bind_exn_def)

lemma lower_strip_python: "lower (strip ''python'') = ''python''"
  by code_simp

lemma lower_strip_pythn: "lower (strip '' PyThn '') = ''pythn''"
  by code_simp

theorem search_transport_failure_is_empty_witness:
  "http_get demo_env_offline (search_url demo_env_offline ''python'' True) =
     Inl (RequestException Timeout)
   \<and> parse_update (update_of 7 ''python'') = Inr (Some (message_of 7 ''python'', JNum 7))
   \<and> keyword_of (message_of 7 ''python'') = Inr ''python''
   \<and> search_blogger_posts demo_env_offline ''python'' True world0 =
        (Inr (JArr []),
         \<lparr>sent = [],
          fetched = [''https://www.googleapis.com/blogger/v3/blogs/1/posts?labels=python&key=k''],
          console = [Blogger_request_failed Timeout]\<rparr>)
   \<and> fetched (snd (webhook_handler demo_env_offline (update_of 7 ''python'') world0)) =
        [''https://www.googleapis.com/blogger/v3/blogs/1/posts?labels=python&key=k'',
         ''https://www.googleapis.com/blogger/v3/blogs/1/posts?key=k'']"
  using search_transport_failure_is_empty
    [of demo_env_offline "''python''" True Timeout world0 "update_of 7 ''python''"
        "message_of 7 ''python''" "JNum 7"]
  by (simp add: parse_update_of keyword_of_message_of lower_strip_python
      demo_env_offline_def demo_env_def world0_def search_url_def exact_posts_url_def
      all_posts_url_def fmt_env_def)

text \<open>
  C1 (as the code has it). When the Blogger API answers the exact search with an object
  whose \<^verbatim>\<open>"error"\<close> field is an object, \<^verbatim>\<open>search_blogger_posts\<close> raises \<^verbatim>\<open>ValueError\<close> with the
  error's \<^verbatim>\<open>"message"\<close> (or \<^verbatim>\<open>"Blogger API Error"\<close>): it prints nothing and returns nothing,
  since its \<^verbatim>\<open>except\<close> clause is for \<^verbatim>\<open>RequestException\<close> only. The exception reaches the
  handler, whose \<^verbatim>\<open>except Exception\<close> clause prints it, sends it to the chat as the only
  notification and answers with status 500.
\<close>

theorem api_error_is_raised_to_handler:
  "http_get E (exact_posts_url E kw) = Inr (JObj kvs) \<and> map_of kvs ''error'' = Some (JObj err)
     \<and> m = (case map_of err ''message'' of None \<Rightarrow> JStr ''Blogger API Error'' | Some v \<Rightarrow> v)
   \<longrightarrow>
     search_blogger_posts E kw True w =
       (Inl (ValueError m), w\<lparr>fetched := fetched w @ [exact_posts_url E kw]\<rparr>)
     \<and> (parse_update update = Inr (Some (msg, c)) \<and> keyword_of msg = Inr kw \<and> kw \<noteq> [] \<longrightarrow>
          fst (webhook_handler E update w) = Inr (error_500 (ValueError m))
          \<and> sent (snd (webhook_handler E update w)) =
              sent w @ [message_to c (Error_text (ValueError m))]
          \<and> Handler_error (ValueError m) \<in> set (console (snd (webhook_handler E update w))))"
proof (intro impI)
  assume a: "http_get E (exact_posts_url E kw) = Inr (JObj kvs)
     \<and> map_of kvs ''error'' = Some (JObj err)
     \<and> m = (case map_of err ''message'' of None \<Rightarrow> JStr ''Blogger API Error'' | Some v \<Rightarrow> v)"
  then have "''error'' \<in> set (map fst kvs)"
    by (metis map_of_eq_None_iff option.distinct(1) set_map)
  with a have t: "fst (search_try E kw True world0) = Inl (ValueError m)"
    by (simp add: search_try_def requests_get_json_def bind_io_def lift_exn_def bind_exn_def)
  have s: "search_blogger_posts E kw True w =
       (Inl (ValueError m), w\<lparr>fetched := fetched w @ [exact_posts_url E kw]\<rparr>)" for w
    using search_blogger_posts_raises [OF t, of w] by (simp add: search_url_def)
  show "search_blogger_posts E kw True w =
       (Inl (ValueError m), w\<lparr>fetched := fetched w @ [exact_posts_url E kw]\<rparr>)
     \<and> (parse_update update = Inr (Some (msg, c)) \<and> keyword_of msg = Inr kw \<and> kw \<noteq> [] \<longrightarrow>
          fst (webhook_handler E update w) = Inr (error_500 (ValueError m))
          \<and> sent (snd (webhook_handler E update w)) =
              sent w @ [message_to c (Error_text (ValueError m))]
          \<and> Handler_error (ValueError m) \<in> set (console (snd (webhook_handler E update w))))"
  proof (intro conjI impI)
    show "search_blogger_posts E kw True w =
       (Inl (ValueError m), w\<lparr>fetched := fetched w @ [exact_posts_url E kw]\<rparr>)"
      by (rule s)
  next
    assume b: "parse_update update = Inr (Some (msg, c)) \<and> keyword_of msg = Inr kw \<and> kw \<noteq> []"
    let ?w1 = "w\<lparr>fetched := fetched w @ [exact_posts_url E kw]\<rparr>"
    have r: "search_and_reply E c kw w = (Inl (ValueError m), ?w1)"
      using b s by (simp add: search_and_reply_def bind_io_def)
    have h: "webhook_handler E update w = handler_except E (Some c) (ValueError m) ?w1"
      using b r webhook_handler_parsed [of update msg c kw E w] by simp
    show "fst (webhook_handler E update w) = Inr (error_500 (ValueError m))"
      by (simp add: h handler_except_chat)
    show "sent (snd (webhook_handler E update w)) =
              sent w @ [message_to c (Error_text (ValueError m))]"
      by (simp add: h handler_except_chat)
    obtain b' l where "send_to_telegram E c (Error_text (ValueError m))
          (?w1\<lparr>console := console ?w1 @ [Handler_error (ValueError m)]\<rparr>) =
        (Inr b', ?w1\<lparr>console := console ?w1 @ [Handler_error (ValueError m)]\<rparr>
           \<lparr>sent := sent (?w1\<lparr>console := console ?w1 @ [Handler_error (ValueError m)]\<rparr>)
                      @ [message_to c (Error_text (ValueError m))],
            console := console (?w1\<lparr>console := console ?w1 @ [Handler_error (ValueError m)]\<rparr>)
                      @ l\<rparr>)"
      by (rule send_to_telegram_cases)
    then show "Handler_error (ValueError m) \<in> set (console (snd (webhook_handler E update w)))"
      by (simp add: h handler_except_def bind_io_def print_line_def return_io_def)
  qed
qed

lemma bad_key_search:
  "search_blogger_posts demo_env_bad_key ''python'' True world0 =
     (Inl (ValueError (JStr ''API key not valid'')),
      \<lparr>sent = [],
       fetched = [''https://www.googleapis.com/blogger/v3/blogs/1/posts?labels=python&key=k''],
       console = []\<rparr>)"
  by code_simp

theorem api_error_is_raised_to_handler_witness:
  "http_get demo_env_bad_key (exact_posts_url demo_env_bad_key ''python'') = Inr api_error
   \<and> parse_update (update_of 7 ''python'') = Inr (Some (message_of 7 ''python'', JNum 7))
   \<and> keyword_of (message_of 7 ''python'') = Inr ''python''
   \<and> search_blogger_posts demo_env_bad_key ''python'' True world0 =
       (Inl (ValueError (JStr ''API key not valid'')),
        \<lparr>sent = [],
         fetched = [''https://www.googleapis.com/blogger/v3/blogs/1/posts?labels=python&key=k''],
         console = []\<rparr>)
   \<and> fst (webhook_handler demo_env_bad_key (update_of 7 ''python'') world0) =
       Inr (error_500 (ValueError (JStr ''API key not valid'')))
   \<and> sent (snd (webhook_handler demo_env_bad_key (update_of 7 ''python'') world0)) =
       [message_to (JNum 7) (Error_text (ValueError (JStr ''API key not valid'')))]
   \<and> Handler_error (ValueError (JStr ''API key not valid''))
       \<in> set (console (snd (webhook_handler demo_env_bad_key (update_of 7 ''python'') world0)))"
  using api_error_is_raised_to_handler
    [of demo_env_bad_key "''python''"
        "[(''error'', JObj [(''code'', JNum 400), (''message'', JStr ''API key not valid'')])]"
        "[(''code'', JNum 400), (''message'', JStr ''API key not valid'')]"
        "JStr ''API key not valid''" world0 "update_of 7 ''python''"
        "message_of 7 ''python''" "JNum 7"]
  by (simp add: parse_update_of keyword_of_message_of lower_strip_python
      demo_env_bad_key_def api_error_def world0_def exact_posts_url_def fmt_env_def
      demo_env_def)

text \<open>
  The claim as the specification words it, that such an answer makes the search print
  the failure and return the empty list with nothing raised to the handler, fails: with
  the rejected API key of the example the search returns nothing, prints nothing and
  raises.
\<close>

theorem api_error_not_empty_result:
  "fst (search_blogger_posts demo_env_bad_key ''python'' True world0) \<noteq> Inr (JArr [])
   \<and> fst (search_blogger_posts demo_env_bad_key ''python'' True world0) =
       Inl (ValueError (JStr ''API key not valid''))
   \<and> console (snd (search_blogger_posts demo_env_bad_key ''python'' True world0)) = []"
  by (simp add: bad_key_search)

section \<open>The handler's answers\<close>






lemma texts_append [simp]: "texts (w\<lparr>sent := xs\<rparr>) = map message_text xs"
  by (simp add: texts_def)

lemma message_text_message_to [simp]: "message_text (message_to c t) = t"
  by (simp add: message_to_def)

lemma map_message_text_message_to [simp]: "map (message_text \<circ> message_to c) ts = ts"
  by (induction ts) simp_all

lemma handler_found:
  assumes "parse_update update = Inr (Some (msg, c))" "keyword_of msg = Inr kw" "kw \<noteq> []"
    and "found E kw w hdr ps"
  shows
    "fst (webhook_handler E update w) =
       Inr (case map_exn post_line (take 5 ps) of
              Inl e \<Rightarrow> error_500 e | Inr ts \<Rightarrow> success_200)"
    "texts (snd (webhook_handler E update w)) =
       texts w @ hdr (length ps) # sendable (take 5 ps)
         @ (case map_exn post_line (take 5 ps) of Inl e \<Rightarrow> [Error_text e] | Inr ts \<Rightarrow> [])"
proof -
  obtain r1 w1 where s1: "search_blogger_posts E kw True w = (r1, w1)"
    by (cases "search_blogger_posts E kw True w")
  from assms(4) s1 obtain p1 where r1: "r1 = Inr p1"
    by (cases r1) (simp_all add: found_def)
  have sr: "fst (search_and_reply E c kw w) =
       (case map_exn post_line (take 5 ps) of Inl e \<Rightarrow> Inl e | Inr ts \<Rightarrow> Inr success_200)
     \<and> sent (snd (search_and_reply E c kw w)) =
       sent w @ message_to c (hdr (length ps)) # map (message_to c) (sendable (take 5 ps))"
  proof (cases "truthy p1")
    case True
    with assms(4) s1 r1 have p: "p1 = JArr ps" "hdr = Found_exact"
      by (simp_all add: found_def)
    with True have ne: "ps \<noteq> []" by simp
    show ?thesis
      using search_and_reply_exact(1,2) [OF assms(3) s1 [unfolded r1 p(1)] ne, of c] p(2)
      by simp
  next
    case False
    obtain r2 w2 where s2: "search_blogger_posts E kw False w1 = (r2, w2)"
      by (cases "search_blogger_posts E kw False w1")
    from assms(4) s1 r1 False s2 have p: "r2 = Inr (JArr ps)" "ps \<noteq> []" "hdr = Found_related"
      by (cases r2; simp add: found_def)+
    show ?thesis
      using search_and_reply_related(1,2)
        [OF assms(3) s1 [unfolded r1] False s2 [unfolded p(1)] p(2), of c] p(3)
      by simp
  qed
  show "fst (webhook_handler E update w) =
       Inr (case map_exn post_line (take 5 ps) of
              Inl e \<Rightarrow> error_500 e | Inr ts \<Rightarrow> success_200)"
    using webhook_handler_result(1) [OF assms(1,2), of E w] sr
    by (simp split: sum.splits)
  show "texts (snd (webhook_handler E update w)) =
       texts w @ hdr (length ps) # sendable (take 5 ps)
         @ (case map_exn post_line (take 5 ps) of Inl e \<Rightarrow> [Error_text e] | Inr ts \<Rightarrow> [])"
    using webhook_handler_result(2) [OF assms(1,2), of E w] sr
    by (simp add: texts_def split: sum.splits)
qed

lemma sendable_complete:
  assumes "\<forall>p \<in> set items. \<exists>t. post_line p = Inr t"
  shows "\<exists>ts. map_exn post_line items = Inr ts \<and> length ts = length items"
  using assms
proof (induction items)
  case Nil
  then show ?case by simp
next
  case (Cons p items)
  then obtain t where "post_line p = Inr t" by auto
  moreover from Cons obtain ts where "map_exn post_line items = Inr ts"
    "length ts = length items" by auto
  ultimately show ?case by (simp add: bind_exn_def)
qed

lemma prefix_same_length:
  assumes "prefix xs ys" "length xs = length ys"
  shows "xs = ys"
proof -
  from assms(1) obtain zs where "ys = xs @ zs" by (auto simp: prefix_def)
  with assms(2) show ?thesis by simp
qed

lemma found_header: "found E kw w hdr ps \<Longrightarrow> hdr = Found_exact \<or> hdr = Found_related"
  by (auto simp: found_def split: prod.splits sum.splits if_splits)

lemma handler_found_shape:
  assumes "parse_update update = Inr (Some (msg, c))" "keyword_of msg = Inr kw" "kw \<noteq> []"
    and "found E kw w hdr ps"
  obtains items tail where
    "texts (snd (webhook_handler E update w)) = texts w @ hdr (length ps) # items @ tail"
    "prefix (map Inr items) (map post_line (take 5 ps))"
    "length items \<le> 5"
    "\<forall>t \<in> set items. is_post_line t"
    "tail = [] \<and> map Inr items = map post_line (take 5 ps) \<or> (\<exists>e. tail = [Error_text e])"
proof -
  let ?items = "sendable (take 5 ps)"
  let ?tail = "case map_exn post_line (take 5 ps) of
                 Inl e \<Rightarrow> [Error_text e] | Inr (ts :: notice list) \<Rightarrow> []"
  have 1: "texts (snd (webhook_handler E update w)) =
      texts w @ hdr (length ps) # ?items @ ?tail"
    by (rule handler_found(2) [OF assms])
  have 2: "prefix (map Inr ?items) (map post_line (take 5 ps))"
    by (rule sendable_prefix)
  have "length ?items \<le> length (take 5 ps)" by (rule length_sendable)
  then have 3: "length ?items \<le> 5" by simp
  have 4: "\<forall>t \<in> set ?items. is_post_line t" by (rule sendable_post_lines)
  have 5: "?tail = [] \<and> map Inr ?items = map post_line (take 5 ps)
      \<or> (\<exists>e. ?tail = [Error_text e])"
  proof (cases "map_exn post_line (take 5 ps)")
    case (Inl e)
    then show ?thesis by simp
  next
    case (Inr ts)
    have "map post_line items = map Inr ts" if "map_exn post_line items = Inr ts"
      for items :: "json list" and ts
      using that
      by (induction items arbitrary: ts) (auto simp: bind_exn_def split: sum.splits)
    with Inr sendable_all [OF Inr] show ?thesis by simp
  qed
  from 1 2 3 4 5 show thesis by (rule that)
qed

lemma sendable_complete_length:
  "map_exn post_line items = Inr ts \<Longrightarrow> length (sendable items) = length items"
  by (induction items arbitrary: ts) (auto simp: bind_exn_def split: sum.splits)

lemma post_line_shows:
  assumes "post_line post = Inr t"
  shows "shows_post post t"
proof (cases post)
  case (JObj kvs)
  with assms show ?thesis
    by (auto simp: post_line_def shows_post_def bind_exn_def split: option.splits)
qed (use assms in \<open>simp_all add: post_line_def bind_exn_def\<close>)

lemma shows_post_line:
  assumes "shows_post post t"
  shows "post_line post = Inr t"
  using assms
  by (cases post)
     (auto simp: post_line_def shows_post_def bind_exn_def split: option.splits)

lemma sendable_shows:
  "list_all2 shows_post (take (length (sendable ps)) ps) (sendable ps)"
proof (induction ps)
  case Nil
  then show ?case by simp
next
  case (Cons p ps)
  then show ?case
    by (cases "post_line p") (simp_all add: post_line_shows)
qed

lemma sendable_stops:
  "map_exn post_line items = Inl e \<Longrightarrow>
     length (sendable items) < length items
     \<and> (\<forall>t. \<not> shows_post (items ! length (sendable items)) t)"
proof (induction items)
  case Nil
  then show ?case by simp
next
  case (Cons p items)
  show ?case
  proof (cases "post_line p")
    case (Inl e')
    then have "\<forall>t. \<not> shows_post p t"
      using shows_post_line by fastforce
    with Inl show ?thesis by simp
  next
    case (Inr t)
    with Cons.prems have "map_exn post_line items = Inl e"
      by (simp add: bind_exn_def split: sum.splits)
    from Cons.IH [OF this] Inr show ?thesis by simp
  qed
qed

lemma handler_found_pinned:
  assumes "parse_update update = Inr (Some (msg, c))" "keyword_of msg = Inr kw" "kw \<noteq> []"
    and "found E kw w hdr ps"
  obtains items tail where
    "texts (snd (webhook_handler E update w)) = texts w @ hdr (length ps) # items @ tail"
    "prefix (map Inr items) (map post_line (take 5 ps))"
    "length items \<le> 5"
    "list_all is_post_line items"
    "list_all2 shows_post (take (length items) ps) items"
    "tail = [] \<and> length items = min 5 (length ps)
     \<or> (\<exists>e. tail = [Error_text e] \<and> length items < min 5 (length ps)
            \<and> (\<forall>t. \<not> shows_post (ps ! length items) t))"
proof -
  let ?items = "sendable (take 5 ps)"
  let ?tail = "case map_exn post_line (take 5 ps) of
                 Inl e \<Rightarrow> [Error_text e] | Inr (ts :: notice list) \<Rightarrow> []"
  have 1: "texts (snd (webhook_handler E update w)) =
      texts w @ hdr (length ps) # ?items @ ?tail"
    by (rule handler_found(2) [OF assms])
  have 2: "prefix (map Inr ?items) (map post_line (take 5 ps))"
    by (rule sendable_prefix)
  have le: "length ?items \<le> length (take 5 ps)" by (rule length_sendable)
  then have 3: "length ?items \<le> 5" by simp
  have 4: "list_all is_post_line ?items"
    using sendable_post_lines [of "take 5 ps"] by (simp add: list_all_iff)
  have "list_all2 shows_post (take (length ?items) (take 5 ps)) ?items"
    by (rule sendable_shows)
  moreover have "take (length ?items) (take 5 ps) = take (length ?items) ps"
    using 3 by (simp add: min_def)
  ultimately have 5: "list_all2 shows_post (take (length ?items) ps) ?items" by simp
  have 6: "?tail = [] \<and> length ?items = min 5 (length ps)
     \<or> (\<exists>e. ?tail = [Error_text e] \<and> length ?items < min 5 (length ps)
            \<and> (\<forall>t. \<not> shows_post (ps ! length ?items) t))"
  proof (cases "map_exn post_line (take 5 ps)")
    case (Inl e)
    note st = sendable_stops [OF Inl]
    have l: "length ?items < length (take 5 ps)" by (rule st [THEN conjunct1])
    have n: "\<forall>t. \<not> shows_post (take 5 ps ! length ?items) t" by (rule st [THEN conjunct2])
    from l have "length ?items < 5" by simp
    then have "take 5 ps ! length ?items = ps ! length ?items" by (rule nth_take)
    with n have n': "\<forall>t. \<not> shows_post (ps ! length ?items) t" by simp
    from l have "length ?items < min 5 (length ps)" by (simp add: min.commute)
    with Inl n' show ?thesis by simp
  next
    case (Inr ts)
    from sendable_complete_length [OF Inr] Inr show ?thesis
      by (simp add: min.commute)
  qed
  from 1 2 3 4 5 6 show thesis by (rule that)
qed

text \<open>
  C5. Whatever list of posts the search found, the handler sends the count header first
  and then post notices, at most 5 of them: the first notice shows the title and url of
  the first post of the list, the second those of the second post, and so on
  (\<open>shows_post\<close>), so the notices keep the order of the search result. All of the first
  five posts are shown unless one of them is not an object with a title and a url; there
  delivery stops and the error notice follows.
\<close>

theorem item_notifications_capped_and_ordered:
  assumes "parse_update update = Inr (Some (msg, c))" "keyword_of msg = Inr kw" "kw \<noteq> []"
    and "found E kw w hdr ps"
  shows "\<exists>items tail.
      texts (snd (webhook_handler E update w)) = texts w @ hdr (length ps) # items @ tail
      \<and> (hdr = Found_exact \<or> hdr = Found_related)
      \<and> length items \<le> 5
      \<and> list_all2 shows_post (take (length items) ps) items
      \<and> prefix (map Inr items) (map post_line (take 5 ps))
      \<and> list_all is_post_line items
      \<and> (tail = [] \<and> length items = min 5 (length ps)
          \<or> (\<exists>e. tail = [Error_text e] \<and> length items < min 5 (length ps)
                 \<and> (\<forall>t. \<not> shows_post (ps ! length items) t)))"
proof -
  obtain items tail where
    "texts (snd (webhook_handler E update w)) = texts w @ hdr (length ps) # items @ tail"
    "prefix (map Inr items) (map post_line (take 5 ps))"
    "length items \<le> 5"
    "list_all is_post_line items"
    "list_all2 shows_post (take (length items) ps) items"
    "tail = [] \<and> length items = min 5 (length ps)
     \<or> (\<exists>e. tail = [Error_text e] \<and> length items < min 5 (length ps)
            \<and> (\<forall>t. \<not> shows_post (ps ! length items) t))"
    by (rule handler_found_pinned [OF assms])
  with found_header [OF assms(4)] show ?thesis
    by (intro exI [of _ items] exI [of _ tail] conjI)
qed

lemma pythn_exact:
  "search_blogger_posts demo_env ''pythn'' True world0 =
     (Inr (JArr []),
      \<lparr>sent = [],
       fetched = [''https://www.googleapis.com/blogger/v3/blogs/1/posts?labels=pythn&key=k''],
       console = []\<rparr>)"
  by code_simp

lemma pythn_fuzzy:
  "search_blogger_posts demo_env ''pythn'' False
     \<lparr>sent = [],
      fetched = [''https://www.googleapis.com/blogger/v3/blogs/1/posts?labels=pythn&key=k''],
      console = []\<rparr> =
     (Inr (JArr pythn_posts),
      \<lparr>sent = [],
       fetched = [''https://www.googleapis.com/blogger/v3/blogs/1/posts?labels=pythn&key=k'',
                  ''https://www.googleapis.com/blogger/v3/blogs/1/posts?key=k''],
       console = []\<rparr>)"
  by code_simp

lemma pythn_posts_not_empty: "pythn_posts \<noteq> []"
  by (simp add: pythn_posts_def)

lemma pythn_found: "found demo_env ''pythn'' world0 Found_related pythn_posts"
  by (simp add: found_def pythn_exact pythn_fuzzy pythn_posts_not_empty)

lemma pythn_texts:
  "texts (snd (webhook_handler demo_env (update_of 7 '' PyThn '') world0)) =
     [Found_related 6,
      Post_line (JStr ''Intro'') (JStr ''u1''),
      Post_line (JStr ''Loops again'') (JStr ''u2''),
      Post_line (JStr ''Types'') (JStr ''u3''),
      Post_line (JStr ''Tests'') (JStr ''u4''),
      Post_line (JStr ''Tools'') (JStr ''u5'')]"
  by code_simp

theorem item_notifications_capped_and_ordered_witness:
  "parse_update (update_of 7 '' PyThn '') = Inr (Some (message_of 7 '' PyThn '', JNum 7))
   \<and> keyword_of (message_of 7 '' PyThn '') = Inr ''pythn''
   \<and> found demo_env ''pythn'' world0 Found_related pythn_posts
   \<and> texts (snd (webhook_handler demo_env (update_of 7 '' PyThn '') world0)) =
       [Found_related 6,
        Post_line (JStr ''Intro'') (JStr ''u1''),
        Post_line (JStr ''Loops again'') (JStr ''u2''),
        Post_line (JStr ''Types'') (JStr ''u3''),
        Post_line (JStr ''Tests'') (JStr ''u4''),
        Post_line (JStr ''Tools'') (JStr ''u5'')]
   \<and> (\<exists>items tail.
        texts (snd (webhook_handler demo_env (update_of 7 '' PyThn '') world0)) =
          Found_related (length pythn_posts) # items @ tail
        \<and> length items \<le> 5
        \<and> list_all2 shows_post (take (length items) pythn_posts) items
        \<and> prefix (map Inr items) (map post_line (take 5 pythn_posts))
        \<and> list_all is_post_line items
        \<and> (tail = [] \<and> length items = min 5 (length pythn_posts)
            \<or> (\<exists>e. tail = [Error_text e] \<and> length items < min 5 (length pythn_posts)
                   \<and> (\<forall>t. \<not> shows_post (pythn_posts ! length items) t))))"
proof -
  have k: "keyword_of (message_of 7 '' PyThn '') = Inr ''pythn''"
    by (simp add: keyword_of_message_of lower_strip_pythn)
  have ne: "''pythn'' \<noteq> []" by simp
  note t = item_notifications_capped_and_ordered [OF parse_update_of k ne pythn_found]
  have "\<exists>items tail.
        texts (snd (webhook_handler demo_env (update_of 7 '' PyThn '') world0)) =
          Found_related (length pythn_posts) # items @ tail
        \<and> length items \<le> 5
        \<and> list_all2 shows_post (take (length items) pythn_posts) items
        \<and> prefix (map Inr items) (map post_line (take 5 pythn_posts))
        \<and> list_all is_post_line items
        \<and> (tail = [] \<and> length items = min 5 (length pythn_posts)
            \<or> (\<exists>e. tail = [Error_text e] \<and> length items < min 5 (length pythn_posts)
                   \<and> (\<forall>t. \<not> shows_post (pythn_posts ! length items) t)))"
    using t by (simp add: texts_def)
  with parse_update_of [of 7 "'' PyThn ''"] k pythn_found pythn_texts
  show ?thesis by (intro conjI)
qed

text \<open>
  C10. The count in the header is the length of the whole list the search found, not of
  what is delivered: at most 5 post notices follow it, so a list of more than five posts
  is announced with a count above the number of notices, which is exactly 5 when the
  first five posts have a title and a url.
\<close>

theorem header_counts_whole_result:
  assumes "parse_update update = Inr (Some (msg, c))" "keyword_of msg = Inr kw" "kw \<noteq> []"
    and "found E kw w hdr ps"
  shows "\<exists>items tail.
      texts (snd (webhook_handler E update w)) = texts w @ hdr (length ps) # items @ tail
      \<and> (hdr = Found_exact \<or> hdr = Found_related)
      \<and> list_all is_post_line items
      \<and> list_all (\<lambda>t. \<not> is_post_line t) tail
      \<and> (if 5 < length ps
          then length items < length ps
               \<and> (if list_all (\<lambda>p. \<exists>t. post_line p = Inr t) (take 5 ps)
                   then length items = 5 else length items < 5)
          else length items \<le> length ps)"
proof -
  obtain items tail where s:
    "texts (snd (webhook_handler E update w)) = texts w @ hdr (length ps) # items @ tail"
    "prefix (map Inr items) (map post_line (take 5 ps))"
    "length items \<le> 5"
    "\<forall>t \<in> set items. is_post_line t"
    "tail = [] \<and> map Inr items = map post_line (take 5 ps) \<or> (\<exists>e. tail = [Error_text e])"
    by (rule handler_found_shape [OF assms])
  have tail: "list_all (\<lambda>t. \<not> is_post_line t) tail"
    using s(5) by auto
  have le: "length items \<le> length (take 5 ps)"
    using prefix_length_le [OF s(2)] by simp
  have all: "length items = length (take 5 ps)"
    if "list_all (\<lambda>p. \<exists>t. post_line p = Inr t) (take 5 ps)"
  proof -
    from that have "\<forall>p \<in> set (take 5 ps). \<exists>t. post_line p = Inr t"
      by (simp add: list_all_iff)
    then obtain ts where ts: "map_exn post_line (take 5 ps) = Inr ts"
      "length ts = length (take 5 ps)"
      using sendable_complete by blast
    have "texts (snd (webhook_handler E update w)) =
        texts w @ hdr (length ps) # sendable (take 5 ps) @ []"
      using handler_found(2) [OF assms] ts(1) by simp
    with s(1) have "items @ tail = sendable (take 5 ps)" by simp
    moreover have "sendable (take 5 ps) = ts" by (rule sendable_all [OF ts(1)])
    moreover have "list_all is_post_line ts"
      using sendable_post_lines [of "take 5 ps"] \<open>sendable (take 5 ps) = ts\<close>
      by (simp add: list_all_iff)
    ultimately have "tail = []" using s(5) by (auto simp: list_all_iff)
    with \<open>items @ tail = sendable (take 5 ps)\<close> \<open>sendable (take 5 ps) = ts\<close> ts(2)
    show ?thesis by simp
  qed
  have less: "length items < length (take 5 ps)"
    if "\<not> list_all (\<lambda>p. \<exists>t. post_line p = Inr t) (take 5 ps)"
  proof (rule ccontr)
    assume "\<not> length items < length (take 5 ps)"
    with le have "length items = length (take 5 ps)" by linarith
    with s(2) have eq: "map Inr items = map post_line (take 5 ps)"
      by (intro prefix_same_length) simp_all
    have "\<exists>t. post_line p = Inr t" if "p \<in> set (take 5 ps)" for p
    proof -
      from that have "post_line p \<in> set (map Inr items)" unfolding eq by simp
      then show ?thesis by auto
    qed
    with that show False by (simp add: list_all_iff)
  qed
  show ?thesis
    using s(1) found_header [OF assms(4)] s(4) tail le all less
    by (intro exI [of _ items] exI [of _ tail]) (auto simp: list_all_iff)
qed

lemma python_exact:
  "search_blogger_posts demo_env ''python'' True world0 =
     (Inr (JArr python_posts),
      \<lparr>sent = [],
       fetched = [''https://www.googleapis.com/blogger/v3/blogs/1/posts?labels=python&key=k''],
       console = []\<rparr>)"
  by code_simp

lemma python_found: "found demo_env ''python'' world0 Found_exact python_posts"
  by (simp add: found_def python_exact) (simp add: python_posts_def)

lemma post_line_post_of:
  "post_line (post_of title url labels) = Inr (Post_line (JStr title) (JStr url))"
  by (simp add: post_line_def post_of_def bind_exn_def)

lemma python_posts_lines:
  "list_all (\<lambda>p. \<exists>t. post_line p = Inr t) (take 5 python_posts)"
  by (simp add: python_posts_def post_line_post_of)

lemma length_python_posts: "length python_posts = 6"
  by (simp add: python_posts_def)

theorem header_counts_whole_result_witness:
  "parse_update (update_of 7 ''python'') = Inr (Some (message_of 7 ''python'', JNum 7))
   \<and> keyword_of (message_of 7 ''python'') = Inr ''python''
   \<and> found demo_env ''python'' world0 Found_exact python_posts
   \<and> length python_posts = 6
   \<and> (\<exists>items tail.
        texts (snd (webhook_handler demo_env (update_of 7 ''python'') world0)) =
          Found_exact 6 # items @ tail
        \<and> list_all is_post_line items
        \<and> list_all (\<lambda>t. \<not> is_post_line t) tail
        \<and> length items = 5)"
proof -
  have k: "keyword_of (message_of 7 ''python'') = Inr ''python''"
    by (simp add: keyword_of_message_of lower_strip_python)
  have ne: "''python'' \<noteq> []" by simp
  from header_counts_whole_result [OF parse_update_of k ne python_found]
  obtain items tail where t:
    "texts (snd (webhook_handler demo_env (update_of 7 ''python'') world0)) =
       texts world0 @ Found_exact (length python_posts) # items @ tail"
    "list_all is_post_line items"
    "list_all (\<lambda>t. \<not> is_post_line t) tail"
    "if 5 < length python_posts
     then length items < length python_posts
          \<and> (if list_all (\<lambda>p. \<exists>t. post_line p = Inr t) (take 5 python_posts)
              then length items = 5 else length items < 5)
     else length items \<le> length python_posts"
    by blast
  from t(4) python_posts_lines have five: "length items = 5"
    by (simp add: length_python_posts)
  have "\<exists>items tail.
        texts (snd (webhook_handler demo_env (update_of 7 ''python'') world0)) =
          Found_exact 6 # items @ tail
        \<and> list_all is_post_line items
        \<and> list_all (\<lambda>t. \<not> is_post_line t) tail
        \<and> length items = 5"
    using t(1,2,3) five
    by (intro exI [of _ items] exI [of _ tail]) (simp add: length_python_posts texts_def)
  then show ?thesis
    using parse_update_of [of 7 "''python''"] k python_found length_python_posts
    by blast
qed

section \<open>Updates without a chat\<close>

text \<open>
  C6 (as the code has it). An update that is a JSON object is answered with
  \<^verbatim>\<open>{"status": "error", "message": "Invalid message format"}, 400\<close> and nothing is sent
  or fetched when its message (the value under \<^verbatim>\<open>"message"\<close>, or the update itself
  without that key) counts as false, is an object without the key \<^verbatim>\<open>"chat"\<close>, is a list
  without the element \<^verbatim>\<open>"chat"\<close> or is a string that does not contain \<^verbatim>\<open>chat\<close>. For every
  update from which no \<^verbatim>\<open>chat_id\<close> is bound, whatever its shape, nothing is sent and
  nothing is fetched, and the status is 400 or 500.
\<close>

theorem missing_chat_sends_nothing:
  "(update = JObj kvs
      \<and> m = (case map_of kvs ''message'' of None \<Rightarrow> update | Some v \<Rightarrow> v)
      \<and> (\<not> truthy m
          \<or> (\<exists>mf. m = JObj mf \<and> ''chat'' \<notin> set (map fst mf))
          \<or> (\<exists>xs. m = JArr xs \<and> JStr ''chat'' \<notin> set xs)
          \<or> (\<exists>s. m = JStr s \<and> \<not> is_substring ''chat'' s))
    \<longrightarrow> webhook_handler E update w = (Inr invalid_400, w) \<and> http_status invalid_400 = 400)
   \<and> ((\<forall>msg c. parse_update update \<noteq> Inr (Some (msg, c)))
    \<longrightarrow> sent (snd (webhook_handler E update w)) = sent w
        \<and> fetched (snd (webhook_handler E update w)) = fetched w
        \<and> (\<exists>r. fst (webhook_handler E update w) = Inr r \<and> status r = ''error''
                \<and> (http_status r = 400 \<or> http_status r = 500)))"
proof (intro conjI impI)
  assume a: "update = JObj kvs
      \<and> m = (case map_of kvs ''message'' of None \<Rightarrow> update | Some v \<Rightarrow> v)
      \<and> (\<not> truthy m
          \<or> (\<exists>mf. m = JObj mf \<and> ''chat'' \<notin> set (map fst mf))
          \<or> (\<exists>xs. m = JArr xs \<and> JStr ''chat'' \<notin> set xs)
          \<or> (\<exists>s. m = JStr s \<and> \<not> is_substring ''chat'' s))"
  then have g: "py_get update ''message'' update = Inr m" by auto
  from a have "no_chat m = Inr True"
    by (auto simp: no_chat_def bind_exn_def)
  with g have "parse_update update = Inr None"
    by (simp add: parse_update_def bind_exn_def)
  then show "webhook_handler E update w = (Inr invalid_400, w)"
    by (simp add: webhook_handler_def)
  show "http_status invalid_400 = 400" by (simp add: invalid_400_def)
next
  assume n: "\<forall>msg c. parse_update update \<noteq> Inr (Some (msg, c))"
  consider e where "parse_update update = Inl e" | "parse_update update = Inr None"
    using n by (cases "parse_update update") (auto, metis not_None_eq surj_pair)
  then have "sent (snd (webhook_handler E update w)) = sent w
        \<and> fetched (snd (webhook_handler E update w)) = fetched w
        \<and> (\<exists>r. fst (webhook_handler E update w) = Inr r \<and> status r = ''error''
                \<and> (http_status r = 400 \<or> http_status r = 500))"
  proof cases
    case 1
    then show ?thesis
      by (simp add: webhook_handler_def handler_except_no_chat error_500_def)
  next
    case 2
    then show ?thesis
      by (simp add: webhook_handler_def invalid_400_def)
  qed
  then show "sent (snd (webhook_handler E update w)) = sent w"
    and "fetched (snd (webhook_handler E update w)) = fetched w"
    and "\<exists>r. fst (webhook_handler E update w) = Inr r \<and> status r = ''error''
                \<and> (http_status r = 400 \<or> http_status r = 500)"
    by simp_all
qed

theorem missing_chat_sends_nothing_witness:
  "webhook_handler demo_env (JObj [(''update_id'', JNum 1), (''edited_message'', message_of 7 ''x'')])
       world0 = (Inr invalid_400, world0)
   \<and> http_status invalid_400 = 400
   \<and> sent (snd (webhook_handler demo_env
        (JObj [(''update_id'', JNum 1), (''edited_message'', message_of 7 ''x'')]) world0)) = []"
  using missing_chat_sends_nothing
    [of "JObj [(''update_id'', JNum 1), (''edited_message'', message_of 7 ''x'')]"
        "[(''update_id'', JNum 1), (''edited_message'', message_of 7 ''x'')]"
        "JObj [(''update_id'', JNum 1), (''edited_message'', message_of 7 ''x'')]"
        demo_env world0]
  by simp

text \<open>
  The claim as the specification words it, for every payload without a chat, fails where
  the message is not an object: a message that is a number makes line 67 raise
  \<^verbatim>\<open>TypeError\<close>, and the handler answers 500.
\<close>

theorem missing_chat_not_always_400:
  "webhook_handler demo_env (JObj [(''message'', JNum 5)]) world0 =
     (Inr (error_500 TypeError), world0\<lparr>console := [Handler_error TypeError]\<rparr>)
   \<and> http_status (error_500 TypeError) = 500"
  by (simp add: webhook_handler_def parse_update_def no_chat_def bind_exn_def
      handler_except_no_chat error_500_def)

section \<open>The fuzzy match\<close>

lemma sort_Nil_iff: "sort xs = [] \<longleftrightarrow> xs = []"
  using length_sort [of "\<lambda>x. x" xs] by (metis length_0_conv)

lemma get_close_matches_nonempty:
  "get_close_matches score word ps (Suc n) cutoff \<noteq> [] \<longleftrightarrow>
     (\<exists>x \<in> set ps. cutoff \<le> score x word)"
  by (simp add: get_close_matches_def sort_Nil_iff filter_empty_conv)

lemma label_match_iff:
  "label_match E kw labels \<longleftrightarrow>
     is_substring kw (join '' '' labels) \<or> (\<exists>l \<in> set labels. 6 / 10 \<le> ratio E l kw)"
  using get_close_matches_nonempty [of "ratio E" kw labels 0 "6 / 10"]
  by (simp add: label_match_def)

lemma match_loop_filter:
  "match_loop E kw acc posts = Inr matched \<Longrightarrow>
     matched = acc @ filter (\<lambda>p. case post_labels p of
                                   Inl e \<Rightarrow> False | Inr ls \<Rightarrow> label_match E kw ls) posts
     \<and> (\<forall>p \<in> set posts. \<exists>ls. post_labels p = Inr ls)"
proof (induction posts arbitrary: acc)
  case Nil
  then show ?case by simp
next
  case (Cons p posts)
  show ?case
  proof (cases "post_labels p")
    case (Inl e)
    with Cons.prems show ?thesis by (simp add: bind_exn_def)
  next
    case (Inr ls)
    let ?acc = "if label_match E kw ls then acc @ [p] else acc"
    from Cons.prems Inr have "match_loop E kw ?acc posts = Inr matched"
      by (simp add: bind_exn_def)
    from Cons.IH [OF this] Inr show ?thesis by auto
  qed
qed

lemma dedup_dict_raises:
  "dedup_dict d posts = Inl e \<Longrightarrow> e = TypeError \<or> e = KeyError ''url''"
proof (induction posts arbitrary: d)
  case Nil
  then show ?case by simp
next
  case (Cons post rest)
  show ?case
  proof (cases "py_index post ''url''")
    case (Inl e')
    then have "e' = TypeError \<or> e' = KeyError ''url''"
      by (cases post) (auto split: option.splits)
    with Inl Cons.prems show ?thesis by (simp add: bind_exn_def)
  next
    case (Inr url)
    show ?thesis
    proof (cases "hash_key url")
      case (Inl e')
      then have "e' = TypeError" by (cases url) auto
      with Inl Inr Cons.prems show ?thesis by (simp add: bind_exn_def)
    next
      case k: (Inr k)
      with Inr Cons.prems have "dedup_dict (dict_set d k post) rest = Inl e"
        by (simp add: bind_exn_def)
      then show ?thesis by (rule Cons.IH)
    qed
  qed
qed

lemma search_fuzzy_value:
  assumes "http_get E (all_posts_url E) = Inr response"
    and "py_get response ''items'' (JArr []) = Inr all_posts"
    and "py_iter all_posts = Inr posts"
    and "match_loop E kw [] posts = Inr matched"
  shows "fst (search_blogger_posts E kw False w) =
           (case dedup_dict [] matched of Inl e \<Rightarrow> Inl e | Inr d \<Rightarrow> Inr (JArr (map snd d)))"
proof (cases "dedup_dict [] matched")
  case (Inl e)
  with assms have t: "fst (search_try E kw False world0) = Inl e"
    by (simp add: search_try_def requests_get_json_def bind_io_def lift_exn_def)
  from dedup_dict_raises [OF Inl] have "\<forall>r. e \<noteq> RequestException r" by auto
  from search_blogger_posts_raises [OF t this, of w] Inl show ?thesis by simp
next
  case (Inr d)
  with assms have "fst (search_try E kw False world0) = Inr (JArr (map snd d))"
    by (simp add: search_try_def requests_get_json_def bind_io_def lift_exn_def return_io_def)
  from search_blogger_posts_returns [OF this, of w] Inr show ?thesis by simp
qed

lemma join_char:
  "join [c] labels = (case labels of [] \<Rightarrow> [] | l # ls \<Rightarrow> l @ concat (map (\<lambda>x. c # x) ls))"
  by (induction "[c]" labels rule: join.induct) simp_all

lemma join_space: "join '' '' labels = space_joined labels"
  by (simp add: join_char space_joined_def)

text \<open>
  C3, for line 50 completed by its missing parenthesis. As written the line does not
  parse, Python refuses the module and no match set is ever computed. With the
  parenthesis closed the loop does what the claim says: once every post of the fetched
  collection is read (an object whose labels are strings), a post of the collection is
  in the match set \<^verbatim>\<open>matched_posts\<close> if and only if the keyword occurs in its lower-cased,
  trimmed labels written with a space between neighbours, or the similarity ratio of
  the keyword and one of these labels is at least 0.6. The matches are posts of the
  collection, and the search returns them deduplicated by url.
\<close>

theorem fuzzy_match_condition:
  assumes "http_get E (all_posts_url E) = Inr response"
    and "py_get response ''items'' (JArr []) = Inr all_posts"
    and "py_iter all_posts = Inr posts"
    and "match_loop E kw [] posts = Inr matched"
  shows "(\<forall>post \<in> set posts.
            post \<in> set matched \<longleftrightarrow>
              (\<exists>labels. post_labels post = Inr labels
                 \<and> ((\<exists>pre suf. space_joined labels = pre @ kw @ suf)
                     \<or> (\<exists>l \<in> set labels. 6 / 10 \<le> ratio E l kw))))
     \<and> set matched \<subseteq> set posts
     \<and> fst (search_blogger_posts E kw False w) =
         (case dedup_dict [] matched of Inl e \<Rightarrow> Inl e | Inr d \<Rightarrow> Inr (JArr (map snd d)))"
proof (intro conjI ballI)
  note f = match_loop_filter [OF assms(4)]
  fix post assume "post \<in> set posts"
  with f obtain ls where ls: "post_labels post = Inr ls" by auto
  have "post \<in> set matched \<longleftrightarrow> label_match E kw ls"
    using f \<open>post \<in> set posts\<close> ls by auto
  with ls show "post \<in> set matched \<longleftrightarrow>
      (\<exists>labels. post_labels post = Inr labels
         \<and> ((\<exists>pre suf. space_joined labels = pre @ kw @ suf)
             \<or> (\<exists>l \<in> set labels. 6 / 10 \<le> ratio E l kw)))"
    by (simp add: label_match_iff is_substring_iff join_space)
next
  show "set matched \<subseteq> set posts"
    using match_loop_filter [OF assms(4)] by auto
next
  show "fst (search_blogger_posts E kw False w) =
         (case dedup_dict [] matched of Inl e \<Rightarrow> Inl e | Inr d \<Rightarrow> Inr (JArr (map snd d)))"
    by (rule search_fuzzy_value [OF assms])
qed

lemma pythn_matches: "match_loop demo_env ''pythn'' [] demo_blog = Inr (take 7 demo_blog)"
  by code_simp

lemma n_b_matches:
  "match_loop demo_env ''n b'' [] demo_blog =
     Inr [post_of ''Intro'' ''u1'' ['' Python '', ''basics'']]"
  by code_simp

lemma intro_labels:
  "post_labels (post_of ''Intro'' ''u1'' ['' Python '', ''basics'']) = Inr [''python'', ''basics'']"
  by code_simp

lemma types_labels:
  "post_labels (post_of ''Types'' ''u3'' [''python'', ''typing'']) = Inr [''python'', ''typing'']"
  by code_simp

lemma cooking_labels: "post_labels (post_of ''Cooking'' ''u6'' [''food'']) = Inr [''food'']"
  by code_simp

text \<open>
  On the example blog: the keyword \<^verbatim>\<open>pythn\<close> matches the first post by the ratio of its
  label \<^verbatim>\<open>python\<close> and not the last one; the keyword \<^verbatim>\<open>n b\<close> is close to no label and
  matches the first post alone, whose labels read \<^verbatim>\<open>python basics\<close>.
\<close>

theorem fuzzy_match_condition_witness:
  "http_get demo_env (all_posts_url demo_env) =
     Inr (JObj [(''kind'', JStr ''blogger#postList''), (''items'', JArr demo_blog)])
   \<and> match_loop demo_env ''pythn'' [] demo_blog = Inr (take 7 demo_blog)
   \<and> post_labels (post_of ''Intro'' ''u1'' ['' Python '', ''basics'']) = Inr [''python'', ''basics'']
   \<and> 6 / 10 \<le> ratio demo_env ''python'' ''pythn''
   \<and> post_of ''Intro'' ''u1'' ['' Python '', ''basics''] \<in> set (take 7 demo_blog)
   \<and> post_of ''Cooking'' ''u6'' [''food''] \<notin> set (take 7 demo_blog)
   \<and> match_loop demo_env ''n b'' [] demo_blog =
       Inr [post_of ''Intro'' ''u1'' ['' Python '', ''basics'']]
   \<and> space_joined [''python'', ''basics''] = ''pytho'' @ ''n b'' @ ''asics''
   \<and> ratio demo_env ''python'' ''n b'' < 6 / 10
   \<and> ratio demo_env ''basics'' ''n b'' < 6 / 10
   \<and> post_of ''Types'' ''u3'' [''python'', ''typing'']
       \<notin> set [post_of ''Intro'' ''u1'' ['' Python '', ''basics'']]"
proof -
  let ?response = "JObj [(''kind'', JStr ''blogger#postList''), (''items'', JArr demo_blog)]"
  let ?intro = "post_of ''Intro'' ''u1'' ['' Python '', ''basics'']"
  let ?types = "post_of ''Types'' ''u3'' [''python'', ''typing'']"
  let ?cooking = "post_of ''Cooking'' ''u6'' [''food'']"
  have g: "http_get demo_env (all_posts_url demo_env) = Inr ?response"
    by (simp add: demo_env_def all_posts_url_def fmt_env_def)
  have i: "py_get ?response ''items'' (JArr []) = Inr (JArr demo_blog)" by simp
  have it: "py_iter (JArr demo_blog) = Inr demo_blog" by simp
  have r: "6 / 10 \<le> ratio demo_env ''python'' ''pythn''"
    by (simp add: demo_env_def demo_ratio_def)
  note t = fuzzy_match_condition [OF g i it pythn_matches, of world0, THEN conjunct1]
  note u = fuzzy_match_condition [OF g i it n_b_matches, of world0, THEN conjunct1]
  have mi: "?intro \<in> set demo_blog" by (simp add: demo_blog_def)
  have mt: "?types \<in> set demo_blog" by (simp add: demo_blog_def)
  have mc: "?cooking \<in> set demo_blog" by (simp add: demo_blog_def)
  have "\<exists>l \<in> set [''python'', ''basics'']. 6 / 10 \<le> ratio demo_env l ''pythn''"
    using r by simp
  then have "\<exists>labels. post_labels ?intro = Inr labels
      \<and> ((\<exists>pre suf. space_joined labels = pre @ ''pythn'' @ suf)
          \<or> (\<exists>l \<in> set labels. 6 / 10 \<le> ratio demo_env l ''pythn''))"
    using intro_labels by (intro exI [of _ "[''python'', ''basics'']"] conjI disjI2)
  then have 1: "?intro \<in> set (take 7 demo_blog)"
    using bspec [OF t mi] by (rule iffD2 [rotated])
  have ns: "\<not> (\<exists>pre suf. space_joined [''food''] = pre @ ''pythn'' @ suf)"
  proof -
    have n: "\<not> is_substring ''pythn'' (join '' '' [''food''])" by code_simp
    show ?thesis by (rule n [unfolded is_substring_iff join_space])
  qed
  have nr: "\<not> (\<exists>l \<in> set [''food'']. 6 / 10 \<le> ratio demo_env l ''pythn'')"
    by (simp add: demo_env_def demo_ratio_def)
  have "\<not> (\<exists>labels. post_labels ?cooking = Inr labels
      \<and> ((\<exists>pre suf. space_joined labels = pre @ ''pythn'' @ suf)
          \<or> (\<exists>l \<in> set labels. 6 / 10 \<le> ratio demo_env l ''pythn'')))"
  proof
    assume "\<exists>labels. post_labels ?cooking = Inr labels
      \<and> ((\<exists>pre suf. space_joined labels = pre @ ''pythn'' @ suf)
          \<or> (\<exists>l \<in> set labels. 6 / 10 \<le> ratio demo_env l ''pythn''))"
    then obtain labels where l: "post_labels ?cooking = Inr labels"
      "(\<exists>pre suf. space_joined labels = pre @ ''pythn'' @ suf)
          \<or> (\<exists>l \<in> set labels. 6 / 10 \<le> ratio demo_env l ''pythn'')"
      by blast
    from l(1) have "labels = [''food'']" by (simp add: cooking_labels)
    with l(2) ns nr show False by blast
  qed
  then have 2: "?cooking \<notin> set (take 7 demo_blog)"
    using bspec [OF t mc] by simp
  have 3: "space_joined [''python'', ''basics''] = ''pytho'' @ ''n b'' @ ''asics''"
    by (simp add: space_joined_def)
  have 4: "ratio demo_env ''python'' ''n b'' < 6 / 10" "ratio demo_env ''basics'' ''n b'' < 6 / 10"
    by (simp_all add: demo_env_def demo_ratio_def)
  have "?types \<in> set [?intro] \<longleftrightarrow>
      (\<exists>labels. post_labels ?types = Inr labels
         \<and> ((\<exists>pre suf. space_joined labels = pre @ ''n b'' @ suf)
             \<or> (\<exists>l \<in> set labels. 6 / 10 \<le> ratio demo_env l ''n b'')))"
    by (rule bspec [OF u mt])
  moreover have "?types \<noteq> ?intro" by (simp add: post_of_def)
  ultimately have 5: "?types \<notin> set [?intro]" by simp
  from g pythn_matches intro_labels r 1 2 n_b_matches 3 4 5 show ?thesis by (intro conjI)
qed

section \<open>Deduplication\<close>

lemma dict_set_keys:
  "map fst (dict_set d k v) = (if k \<in> set (map fst d) then map fst d else map fst d @ [k])"
proof (induction d)
  case Nil
  then show ?case by simp
next
  case (Cons kv d)
  then show ?case by (cases kv) auto
qed

lemma dict_set_entries: "set (dict_set d k v) \<subseteq> insert (k, v) (set d)"
proof (induction d)
  case Nil
  then show ?case by simp
next
  case (Cons kv d)
  then show ?case by (cases kv) auto
qed

lemma dedup_dict_inv:
  assumes "dedup_dict d posts = Inr d'" "distinct (map fst d)"
    and "\<forall>(k, p) \<in> set d. url_key p = Inr k"
  shows "distinct (map fst d') \<and> (\<forall>(k, p) \<in> set d'. url_key p = Inr k)"
  using assms
proof (induction posts arbitrary: d)
  case Nil
  then show ?case by simp
next
  case (Cons post rest)
  from Cons.prems(1) obtain url k where
    u: "py_index post ''url'' = Inr url" "hash_key url = Inr k"
    and r: "dedup_dict (dict_set d k post) rest = Inr d'"
    by (auto simp: bind_exn_def split: sum.splits)
  have uk: "url_key post = Inr k" using u by (simp add: url_key_def bind_exn_def)
  have 1: "distinct (map fst (dict_set d k post))"
    using Cons.prems(2) by (simp add: dict_set_keys)
  have 2: "\<forall>(k, p) \<in> set (dict_set d k post). url_key p = Inr k"
    using Cons.prems(3) uk dict_set_entries [of d k post] by auto
  show ?case by (rule Cons.IH [OF r 1 2])
qed

lemma dedup_dict_values:
  assumes "dedup_dict [] posts = Inr d"
  shows "distinct (map url_key (map snd d))" "\<forall>p \<in> set (map snd d). \<exists>k. url_key p = Inr k"
proof -
  from dedup_dict_inv [OF assms] have
    k: "distinct (map fst d)" and v: "\<forall>(k, p) \<in> set d. url_key p = Inr k"
    by simp_all
  from v have e: "map url_key (map snd d) = map Inr (map fst d)" by auto
  from k have "distinct (map Inr (map fst d) :: (exn + dict_key) list)"
    by (simp only: distinct_map) (simp add: inj_on_def)
  then show "distinct (map url_key (map snd d))"
    by (simp only: e)
  from v show "\<forall>p \<in> set (map snd d). \<exists>k. url_key p = Inr k" by auto
qed

lemma search_fuzzy_distinct:
  assumes "search_blogger_posts E kw False w = (Inr v, w1)"
  obtains ps where "v = JArr ps" "distinct (map url_key ps)"
    "\<forall>p \<in> set ps. \<exists>k. url_key p = Inr k"
proof -
  from search_fuzzy_result [OF assms]
  consider "v = JArr []" | matched d where "dedup_dict [] matched = Inr d" "v = JArr (map snd d)"
    by blast
  then show thesis
  proof cases
    case 1
    then show ?thesis using that [of "[]"] by simp
  next
    case 2
    from dedup_dict_values [OF 2(1)] 2(2) show ?thesis using that by blast
  qed
qed

lemma sendable_urls:
  "map (\<lambda>t. case notice_url t of None \<Rightarrow> Inl TypeError | Some u \<Rightarrow> Inr u) (sendable ps) =
     map (\<lambda>p. py_index p ''url'') (take (length (sendable ps)) ps)"
proof (induction ps)
  case Nil
  then show ?case by simp
next
  case (Cons p ps)
  then show ?case
    by (cases "post_line p") (auto simp: post_line_def bind_exn_def split: sum.splits)
qed

lemma distinct_map_outer:
  assumes "distinct (map (\<lambda>x. g (f x)) xs)"
  shows "distinct (map f xs)"
  using assms by (induction xs) auto

lemma distinct_map_take:
  assumes "distinct (map f xs)"
  shows "distinct (map f (take n xs))"
proof -
  have "distinct (take n (map f xs))" using assms by (rule distinct_take)
  then show ?thesis by (simp only: take_map)
qed

lemma sendable_distinct_urls:
  assumes "distinct (map url_key ps)"
  shows "distinct (map notice_url (sendable (take n ps)))"
proof -
  let ?tps = "take n ps"
  have "distinct (map url_key ?tps)"
    using assms by (rule distinct_map_take)
  then have "distinct (map (\<lambda>p. bind_exn (py_index p ''url'') hash_key) ?tps)"
    by (simp add: url_key_def [abs_def])
  then have "distinct (map (\<lambda>p. py_index p ''url'') ?tps)"
    by (rule distinct_map_outer)
  then have "distinct (map (\<lambda>p. py_index p ''url'') (take (length (sendable ?tps)) ?tps))"
    by (rule distinct_map_take)
  then have "distinct (map (\<lambda>t. case notice_url t of None \<Rightarrow> Inl TypeError | Some u \<Rightarrow> Inr u)
      (sendable ?tps))"
    by (simp only: sendable_urls)
  then show ?thesis by (rule distinct_map_outer)
qed

text \<open>
  C4. The fuzzy search returns a list in which no two posts have the same url (the same
  dictionary key \<open>url_key\<close>, which every returned post has). Hence, when the handler
  falls back to the fuzzy search, no two of the post notices it sends show the same url.
\<close>

theorem fuzzy_results_have_distinct_urls:
  "(search_blogger_posts E kw False w = (Inr v, w1) \<longrightarrow>
      (\<exists>ps. v = JArr ps \<and> distinct (map url_key ps)
         \<and> list_all (\<lambda>p. \<exists>k. url_key p = Inr k) ps))
   \<and> (parse_update update = Inr (Some (msg, c)) \<and> keyword_of msg = Inr kw \<and> kw \<noteq> []
        \<and> search_blogger_posts E kw True w = (Inr p1, w2) \<and> \<not> truthy p1 \<longrightarrow>
      (\<exists>new. texts (snd (webhook_handler E update w)) = texts w @ new
         \<and> distinct (map notice_url (filter is_post_line new))))"
proof (intro conjI impI)
  assume "search_blogger_posts E kw False w = (Inr v, w1)"
  then obtain ps where "v = JArr ps" "distinct (map url_key ps)"
    "\<forall>p \<in> set ps. \<exists>k. url_key p = Inr k"
    by (rule search_fuzzy_distinct)
  then show "\<exists>ps. v = JArr ps \<and> distinct (map url_key ps)
         \<and> list_all (\<lambda>p. \<exists>k. url_key p = Inr k) ps"
    by (simp add: list_all_iff)
next
  assume a: "parse_update update = Inr (Some (msg, c)) \<and> keyword_of msg = Inr kw \<and> kw \<noteq> []
        \<and> search_blogger_posts E kw True w = (Inr p1, w2) \<and> \<not> truthy p1"
  then have p: "parse_update update = Inr (Some (msg, c))" and k: "keyword_of msg = Inr kw"
    and ne: "kw \<noteq> []" and s1: "search_blogger_posts E kw True w = (Inr p1, w2)"
    and f1: "\<not> truthy p1"
    by simp_all
  obtain r2 w3 where s2: "search_blogger_posts E kw False w2 = (r2, w3)"
    by (cases "search_blogger_posts E kw False w2")
  show "\<exists>new. texts (snd (webhook_handler E update w)) = texts w @ new
         \<and> distinct (map notice_url (filter is_post_line new))"
  proof (cases r2)
    case (Inl e)
    have "sent w2 = sent w"
      using search_blogger_posts_sent [of E kw True w] s1 by simp
    moreover have "sent w3 = sent w2"
      using search_blogger_posts_sent [of E kw False w2] s2 by simp
    moreover have "search_and_reply E c kw w = (Inl e, w3)"
      using ne s1 f1 s2 Inl by (simp add: search_and_reply_def bind_io_def)
    ultimately have "texts (snd (webhook_handler E update w)) = texts w @ [Error_text e]"
      using webhook_handler_result(2) [OF p k, of E w] by (simp add: texts_def)
    then show ?thesis by simp
  next
    case (Inr v)
    with s2 obtain ps where ps: "v = JArr ps" "distinct (map url_key ps)"
      using search_fuzzy_distinct by blast
    show ?thesis
    proof (cases "ps = []")
      case True
      with ps have "\<not> truthy v" by simp
      from search_and_reply_none(1,2) [OF ne s1 f1 s2 [unfolded Inr] this, of c]
      have "texts (snd (webhook_handler E update w)) = texts w @ [No_matches]"
        using webhook_handler_result(2) [OF p k, of E w] by (simp add: texts_def)
      then show ?thesis by simp
    next
      case False
      have "found E kw w Found_related ps"
        using s1 f1 s2 Inr ps(1) False by (simp add: found_def)
      from handler_found(2) [OF p k ne this]
      have t: "texts (snd (webhook_handler E update w)) =
          texts w @ (Found_related (length ps) # sendable (take 5 ps)
            @ (case map_exn post_line (take 5 ps) of
                 Inl e \<Rightarrow> [Error_text e] | Inr ts \<Rightarrow> []))"
        by simp
      have "filter is_post_line (Found_related (length ps) # sendable (take 5 ps)
            @ (case map_exn post_line (take 5 ps) of
                 Inl e \<Rightarrow> [Error_text e] | Inr ts \<Rightarrow> [])) = sendable (take 5 ps)"
        using sendable_post_lines [of "take 5 ps"]
        by (simp add: filter_id_conv split: sum.splits)
      with t sendable_distinct_urls [OF ps(2), of 5] show ?thesis
        by (metis (no_types, lifting))
    qed
  qed
qed

lemma pythn_exact_fst: "fst (search_blogger_posts demo_env ''pythn'' True world0) = Inr (JArr [])"
  by (simp add: pythn_exact)

theorem fuzzy_results_have_distinct_urls_witness:
  "search_blogger_posts demo_env ''pythn'' False
     \<lparr>sent = [],
      fetched = [''https://www.googleapis.com/blogger/v3/blogs/1/posts?labels=pythn&key=k''],
      console = []\<rparr> =
     (Inr (JArr pythn_posts),
      \<lparr>sent = [],
       fetched = [''https://www.googleapis.com/blogger/v3/blogs/1/posts?labels=pythn&key=k'',
                  ''https://www.googleapis.com/blogger/v3/blogs/1/posts?key=k''],
       console = []\<rparr>)
   \<and> distinct (map url_key pythn_posts)
   \<and> parse_update (update_of 7 '' PyThn '') = Inr (Some (message_of 7 '' PyThn '', JNum 7))
   \<and> keyword_of (message_of 7 '' PyThn '') = Inr ''pythn''
   \<and> fst (search_blogger_posts demo_env ''pythn'' True world0) = Inr (JArr [])
   \<and> (\<exists>new. texts (snd (webhook_handler demo_env (update_of 7 '' PyThn '') world0)) = new
         \<and> distinct (map notice_url (filter is_post_line new)))"
proof -
  let ?w1 = "\<lparr>sent = [],
      fetched = [''https://www.googleapis.com/blogger/v3/blogs/1/posts?labels=pythn&key=k''],
      console = []\<rparr>"
  let ?w2 = "\<lparr>sent = [],
       fetched = [''https://www.googleapis.com/blogger/v3/blogs/1/posts?labels=pythn&key=k'',
                  ''https://www.googleapis.com/blogger/v3/blogs/1/posts?key=k''],
       console = []\<rparr>"
  have k: "keyword_of (message_of 7 '' PyThn '') = Inr ''pythn''"
    by (simp add: keyword_of_message_of lower_strip_pythn)
  note t' = fuzzy_results_have_distinct_urls
    [where E = demo_env and kw = "''pythn''" and w = ?w1 and v = "JArr pythn_posts"
       and ?w1.0 = ?w2]
  note t = fuzzy_results_have_distinct_urls
    [where E = demo_env and kw = "''pythn''" and w = world0
       and update = "update_of 7 '' PyThn ''" and msg = "message_of 7 '' PyThn ''"
       and c = "JNum 7" and ?p1.0 = "JArr []" and ?w2.0 = ?w1]
  from t' [THEN conjunct1] pythn_fuzzy
  have 1: "distinct (map url_key pythn_posts)" by simp
  have "parse_update (update_of 7 '' PyThn '') = Inr (Some (message_of 7 '' PyThn '', JNum 7))
      \<and> keyword_of (message_of 7 '' PyThn '') = Inr ''pythn'' \<and> ''pythn'' \<noteq> []
      \<and> search_blogger_posts demo_env ''pythn'' True world0 = (Inr (JArr []), ?w1)
      \<and> \<not> truthy (JArr [])"
    using parse_update_of [of 7 "'' PyThn ''"] k pythn_exact by simp
  with t [THEN conjunct2]
  have 2: "\<exists>new. texts (snd (webhook_handler demo_env (update_of 7 '' PyThn '') world0)) = new
         \<and> distinct (map notice_url (filter is_post_line new))"
    by (simp add: texts_def)
  from pythn_fuzzy 1 parse_update_of [of 7 "'' PyThn ''"] k pythn_exact_fst 2
  show ?thesis by (intro conjI)
qed

section \<open>Determinism of the notifications\<close>

lemma same_calls_refl [simp]: "same_calls w w"
  by (simp add: same_calls_def)

lemma agree_bind:
  assumes "agree (m w) (m' w')"
    and "\<And>x v v'. same_calls v v' \<Longrightarrow> agree (f x v) (f' x v')"
  shows "agree (bind_io m f w) (bind_io m' f' w')"
proof -
  obtain r v where m: "m w = (r, v)" by (cases "m w")
  obtain r' v' where m': "m' w' = (r', v')" by (cases "m' w'")
  from assms(1) m m' have rr: "r' = r" and sc: "same_calls v v'"
    by (simp_all add: agree_def)
  show ?thesis
  proof (cases r)
    case (Inl e)
    with m m' rr sc show ?thesis by (simp add: bind_io_def agree_def)
  next
    case (Inr x)
    with m m' rr assms(2) [OF sc, of x] show ?thesis by (simp add: bind_io_def)
  qed
qed

lemma agree_send_then:
  assumes "same_calls w w'"
    and "\<And>v v'. same_calls v v' \<Longrightarrow> agree (k v) (k' v')"
  shows "agree (bind_io (send_to_telegram E c t) (\<lambda>_. k) w)
               (bind_io (send_to_telegram E' c t) (\<lambda>_. k') w')"
proof -
  obtain b v where s: "send_to_telegram E c t w = (Inr b, v)"
    "sent v = sent w @ [message_to c t]" "fetched v = fetched w"
    by (rule send_then)
  obtain b' v' where s': "send_to_telegram E' c t w' = (Inr b', v')"
    "sent v' = sent w' @ [message_to c t]" "fetched v' = fetched w'"
    by (rule send_then)
  have "same_calls v v'"
    using assms(1) s(2,3) s'(2,3) by (simp add: same_calls_def)
  from assms(2) [OF this] s(1) s'(1) show ?thesis by (simp add: bind_io_def)
qed

lemma agree_return: "same_calls w w' \<Longrightarrow> agree (return_io x w) (return_io x w')"
  by (simp add: agree_def return_io_def)

lemma agree_lift: "same_calls w w' \<Longrightarrow> agree (lift_exn r w) (lift_exn r w')"
  by (simp add: agree_def lift_exn_def)

lemma agree_send_each:
  "same_calls w w' \<Longrightarrow> agree (send_each E c items w) (send_each E' c items w')"
proof (induction items arbitrary: w w')
  case Nil
  then show ?case by (simp add: agree_return)
next
  case (Cons post rest)
  show ?case
    unfolding send_each.simps
    by (intro agree_bind agree_lift agree_send_then Cons.prems Cons.IH)
qed

lemma agree_send_results:
  "same_calls w w' \<Longrightarrow> agree (send_results E c posts w) (send_results E' c posts w')"
  unfolding send_results_def
  by (intro agree_bind agree_lift agree_send_each agree_return)

lemma label_match_http_post [simp]: "label_match (E\<lparr>http_post := p\<rparr>) = label_match E"
  by (simp add: label_match_def fun_eq_iff)

lemma match_loop_http_post [simp]:
  "match_loop (E\<lparr>http_post := p\<rparr>) kw acc posts = match_loop E kw acc posts"
  by (induction posts arbitrary: acc) simp_all

lemma search_blogger_posts_http_post [simp]:
  "search_blogger_posts (E\<lparr>http_post := p\<rparr>) kw ex w = search_blogger_posts E kw ex w"
  by (simp add: search_blogger_posts_def search_try_def requests_get_json_def
      exact_posts_url_def all_posts_url_def bind_io_def)

lemma agree_search:
  assumes "same_calls w w'"
  shows "agree (search_blogger_posts E kw ex w) (search_blogger_posts E kw ex w')"
proof -
  obtain r l where
    "search_blogger_posts E kw ex w =
       (r, w\<lparr>fetched := fetched w @ [search_url E kw ex], console := console w @ l\<rparr>)"
    and r: "\<forall>u. fst (search_blogger_posts E kw ex u) = r"
    by (rule search_blogger_posts_cases)
  have "same_calls (snd (search_blogger_posts E kw ex w)) (snd (search_blogger_posts E kw ex w'))"
    using assms
    by (simp add: same_calls_def search_blogger_posts_sent search_blogger_posts_fetched)
  with r show ?thesis by (simp add: agree_def)
qed

lemma agree_announce:
  assumes "same_calls v v'"
  shows "agree
      (bind_io (lift_exn (py_len posts)) (\<lambda>n.
         bind_io (send_to_telegram E c (hdr n)) (\<lambda>_. send_results E c posts)) v)
      (bind_io (lift_exn (py_len posts)) (\<lambda>n.
         bind_io (send_to_telegram E' c (hdr n)) (\<lambda>_. send_results E' c posts)) v')"
  by (intro agree_bind agree_lift agree_send_then agree_send_results assms)

lemma agree_tell:
  assumes "same_calls v v'"
  shows "agree (bind_io (send_to_telegram E c t) (\<lambda>_. return_io x) v)
               (bind_io (send_to_telegram E' c t) (\<lambda>_. return_io x) v')"
  by (intro agree_send_then agree_return assms)

lemma bind_io_Inr: "m w = (Inr x, v) \<Longrightarrow> bind_io m f w = f x v"
  by (simp add: bind_io_def)

lemma bind_io_Inl: "m w = (Inl e, v) \<Longrightarrow> bind_io m f w = (Inl e, v)"
  by (simp add: bind_io_def)

lemma agree_after_search:
  assumes "same_calls w w'"
    and "\<And>x v v'. same_calls v v' \<Longrightarrow> agree (f x v) (f' x v')"
  shows "agree (bind_io (search_blogger_posts (E\<lparr>http_post := p\<rparr>) kw ex) f w)
               (bind_io (search_blogger_posts E kw ex) f' w')"
proof -
  have "search_blogger_posts (E\<lparr>http_post := p\<rparr>) kw ex = search_blogger_posts E kw ex"
    by (simp add: fun_eq_iff)
  moreover have "agree (bind_io (search_blogger_posts E kw ex) f w)
                       (bind_io (search_blogger_posts E kw ex) f' w')"
  proof (rule agree_bind)
    show "agree (search_blogger_posts E kw ex w) (search_blogger_posts E kw ex w')"
      by (rule agree_search [OF assms(1)])
  next
    fix x v v' assume "same_calls v v'"
    then show "agree (f x v) (f' x v')" by (rule assms(2))
  qed
  ultimately show ?thesis by simp
qed

lemma agree_search_and_reply:
  assumes "same_calls w w'"
  shows "agree (search_and_reply (E\<lparr>http_post := p\<rparr>) c kw w) (search_and_reply E c kw w')"
proof (cases "kw = []")
  case True
  then show ?thesis
    using agree_tell [OF assms] by (simp add: search_and_reply_def)
next
  case False
  have fuzzy: "agree
      ((if truthy posts then
          bind_io (lift_exn (py_len posts)) (\<lambda>n.
            bind_io (send_to_telegram (E\<lparr>http_post := p\<rparr>) c (Found_related n)) (\<lambda>_.
              send_results (E\<lparr>http_post := p\<rparr>) c posts))
        else bind_io (send_to_telegram (E\<lparr>http_post := p\<rparr>) c No_matches)
               (\<lambda>_. return_io success_200)) v)
      ((if truthy posts then
          bind_io (lift_exn (py_len posts)) (\<lambda>n.
            bind_io (send_to_telegram E c (Found_related n)) (\<lambda>_. send_results E c posts))
        else bind_io (send_to_telegram E c No_matches) (\<lambda>_. return_io success_200)) v')"
    if "same_calls v v'" for posts v v'
  proof (cases "truthy posts")
    case True
    then show ?thesis by (simp add: agree_announce [OF that])
  next
    case False
    then show ?thesis by (simp add: agree_tell [OF that])
  qed
  show ?thesis
    unfolding search_and_reply_def
    using False
    apply (simp only: if_False)
    apply (rule agree_after_search [OF assms])
    subgoal for posts v v'
      apply (cases "truthy posts")
       apply (simp add: agree_announce)
      apply (simp only: not_False_eq_True if_True simp_thms)
      apply (rule agree_after_search, assumption)
      apply (erule fuzzy)
      done
    done
qed

lemma agree_handler_except:
  assumes "same_calls w w'"
  shows "agree (handler_except E chat e w) (handler_except E' chat e w')"
proof -
  have pl: "same_calls (w\<lparr>console := console w @ [Handler_error e]\<rparr>)
                       (w'\<lparr>console := console w' @ [Handler_error e]\<rparr>)"
    using assms by (simp add: same_calls_def)
  show ?thesis
  proof (cases chat)
    case None
    with pl show ?thesis
      by (simp add: handler_except_no_chat agree_def)
  next
    case (Some c)
    have "handler_except E (Some c) e w =
        bind_io (send_to_telegram E c (Error_text e)) (\<lambda>_. return_io (error_500 e))
          (w\<lparr>console := console w @ [Handler_error e]\<rparr>)" for E w
      by (simp add: handler_except_def bind_io_def print_line_def)
    with Some agree_tell [OF pl] show ?thesis by simp
  qed
qed

lemma agree_webhook_handler:
  assumes "same_calls w w'"
  shows "agree (webhook_handler (E\<lparr>http_post := p\<rparr>) update w) (webhook_handler E update w')"
proof (cases "parse_update update")
  case (Inl e)
  then show ?thesis
    using agree_handler_except [OF assms] by (simp add: webhook_handler_def)
next
  case (Inr r)
  show ?thesis
  proof (cases r)
    case None
    with Inr assms show ?thesis by (simp add: webhook_handler_def agree_def)
  next
    case (Some mc)
    obtain msg c where mc: "mc = (msg, c)" by (cases mc)
    have a: "agree
        (bind_io (lift_exn (keyword_of msg)) (search_and_reply (E\<lparr>http_post := p\<rparr>) c) w)
        (bind_io (lift_exn (keyword_of msg)) (search_and_reply E c) w')"
      by (intro agree_bind agree_lift agree_search_and_reply assms)
    obtain r1 v1 where 1:
      "bind_io (lift_exn (keyword_of msg)) (search_and_reply (E\<lparr>http_post := p\<rparr>) c) w = (r1, v1)"
      by (cases "bind_io (lift_exn (keyword_of msg)) (search_and_reply (E\<lparr>http_post := p\<rparr>) c) w")
    obtain r2 v2 where 2:
      "bind_io (lift_exn (keyword_of msg)) (search_and_reply E c) w' = (r2, v2)"
      by (cases "bind_io (lift_exn (keyword_of msg)) (search_and_reply E c) w'")
    from a 1 2 have rr: "r2 = r1" and sc: "same_calls v1 v2" by (simp_all add: agree_def)
    show ?thesis
    proof (cases r1)
      case (Inl e)
      with Inr Some mc 1 2 rr agree_handler_except [OF sc] show ?thesis
        by (simp add: webhook_handler_def)
    next
      case r: (Inr reply)
      with Inr Some mc 1 2 rr sc show ?thesis
        by (simp add: webhook_handler_def agree_def)
    qed
  qed
qed

text \<open>
  C9. The notifications of an invocation are determined by the payload and by what the
  Blogger API answers: two invocations on the same payload against the same content
  differ at most in how the messaging platform answers the \<^verbatim>\<open>sendMessage\<close> calls
  (\<open>http_post\<close>), and whatever these answers are, the same notifications are sent in the
  same order, the same URLs are fetched and the same reply is returned.
\<close>

theorem handler_notifications_deterministic:
  "sent (snd (webhook_handler (E\<lparr>http_post := p\<rparr>) update w)) =
     sent (snd (webhook_handler E update w))
   \<and> fetched (snd (webhook_handler (E\<lparr>http_post := p\<rparr>) update w)) =
     fetched (snd (webhook_handler E update w))
   \<and> fst (webhook_handler (E\<lparr>http_post := p\<rparr>) update w) = fst (webhook_handler E update w)"
  using agree_webhook_handler [where w = w and w' = w and E = E and p = p and update = update]
  by (simp add: agree_def same_calls_def)

theorem handler_notifications_deterministic_witness:
  "sent (snd (webhook_handler (demo_env\<lparr>http_post := (\<lambda>n url body. Post_raises Timeout)\<rparr>)
       (update_of 7 ''python'') world0)) =
     sent (snd (webhook_handler demo_env (update_of 7 ''python'') world0))
   \<and> fst (webhook_handler (demo_env\<lparr>http_post := (\<lambda>n url body. Post_raises Timeout)\<rparr>)
       (update_of 7 ''python'') world0) =
     fst (webhook_handler demo_env (update_of 7 ''python'') world0)"
  using handler_notifications_deterministic
    [where E = demo_env and p = "\<lambda>n url body. Post_raises Timeout"
       and update = "update_of 7 ''python''" and w = world0]
  by simp

end
